theory Spec2Isabelle
  imports Complex_Main "HOL-Library.Word"
begin

section \<open>The sprite background-removal pipeline of process\_caveman.py\<close>

text \<open>
  The development follows \<^verbatim>\<open>remove_background_hd\<close> stage by stage: loading the image
  into a float array, the per-pixel classification loop that writes the alpha channel,
  the conversion back to 8-bit samples, the crop to the content bounding box, the
  computation of the target size and the call of the resampler.

  Number model. Image samples are 8-bit words. The loop body is modelled in IEEE
  floating point, every operation rounded to nearest-even with \<open>p\<close> significand bits:
  \<open>p = 24\<close> is numpy 2, where a float32 scalar combined with a Python number stays
  float32, \<open>p = 53\<close> is numpy 1, where such an operation is carried out in float64; the
  output array is float32 in both. A second version of the loop, with exact arithmetic
  over the reals, is kept for the statements that rounding does not touch. The Pillow
  operations \<^verbatim>\<open>getbbox\<close>, \<^verbatim>\<open>crop\<close> and the size check of \<^verbatim>\<open>resize\<close> are modelled
  from their documented behaviour; the pixel values computed by the Lanczos kernel and
  by the sharpening kernel are parameters of the pipeline.
\<close>

subsection \<open>Pixel buffers\<close>

type_synonym uint8 = "8 word"

text \<open>A pixel is the four samples R, G, B, A; a buffer is a list of rows, indexed
  \<open>buf ! y ! x\<close> like the numpy array of shape (height, width, 4).\<close>

type_synonym 'a pixel = "'a \<times> 'a \<times> 'a \<times> 'a"
type_synonym 'a buffer = "'a pixel list list"

definition rgb :: "'a pixel \<Rightarrow> 'a \<times> 'a \<times> 'a" where
  "rgb p = (case p of (r, g, b, a) \<Rightarrow> (r, g, b))"

definition alpha :: "'a pixel \<Rightarrow> 'a" where
  "alpha p = (case p of (r, g, b, a) \<Rightarrow> a)"

definition img_height :: "'a list list \<Rightarrow> nat" where
  "img_height img = length img"

definition img_width :: "'a list list \<Rightarrow> nat" where
  "img_width img = (case img of [] \<Rightarrow> 0 | row # _ \<Rightarrow> length row)"

text \<open>\<^verbatim>\<open>img.size\<close>: width first, then height.\<close>

definition img_size :: "'a list list \<Rightarrow> nat \<times> nat" where
  "img_size img = (img_width img, img_height img)"

text \<open>Arrays and images are rectangular: every row has the width of the image.\<close>

definition rectangular :: "'a list list \<Rightarrow> bool" where
  "rectangular img = list_all (\<lambda>row. length row = img_width img) img"

subsection \<open>Numeric helpers of Python and numpy\<close>

datatype error = ZeroDivisionError | ValueError

text \<open>\<^verbatim>\<open>int(x)\<close> on a float, and \<^verbatim>\<open>astype\<close> to an integer type: truncation towards zero.\<close>

definition py_int :: "real \<Rightarrow> int" where
  "py_int x = (if 0 \<le> x then \<lfloor>x\<rfloor> else \<lceil>x\<rceil>)"

text \<open>\<^verbatim>\<open>a / b\<close> on two Python ints raises on a zero divisor.\<close>

definition true_div :: "nat \<Rightarrow> nat \<Rightarrow> error + real" where
  "true_div a b = (if b = 0 then Inl ZeroDivisionError else Inr (real a / real b))"

text \<open>\<^verbatim>\<open>np.clip(x, lo, hi)\<close> is \<^verbatim>\<open>minimum(maximum(x, lo), hi)\<close>.\<close>

definition np_clip :: "real \<Rightarrow> real \<Rightarrow> real \<Rightarrow> real" where
  "np_clip x lo hi = min (max x lo) hi"

text \<open>\<^verbatim>\<open>np.std\<close> with its default \<^verbatim>\<open>ddof=0\<close>: the population standard deviation.\<close>

definition np_std :: "real list \<Rightarrow> real" where
  "np_std xs =
     (let n = real (length xs);
          m = sum_list xs / n
      in sqrt (sum_list (map (\<lambda>x. (x - m)\<^sup>2) xs) / n))"

definition astype_uint8 :: "real \<Rightarrow> uint8" where
  "astype_uint8 v = word_of_int (py_int v)"

subsection \<open>Floating point\<close>

text \<open>Rounding to the nearest integer, ties to even.\<close>

definition round_even :: "real \<Rightarrow> int" where
  "round_even x =
     (let n = \<lfloor>x\<rfloor>; d = x - of_int n
      in if d < 1 / 2 then n else if 1 / 2 < d then n + 1 else if even n then n else n + 1)"

text \<open>
  \<open>fl p x\<close>: the number with \<open>p\<close> significand bits nearest to \<open>x\<close>, ties to even, as
  IEEE 754 rounds the result of every operation. The exponent is not bounded: the
  values of the loop body lie far from the overflow and underflow thresholds of float32
  and float64.
\<close>

definition fl :: "nat \<Rightarrow> real \<Rightarrow> real" where
  "fl p x =
     (if x = 0 then 0
      else let e = \<lfloor>log 2 \<bar>x\<bar>\<rfloor>; ulp = 2 powi (e - int p + 1)
           in of_int (round_even (x / ulp)) * ulp)"

text \<open>A Python float literal is a float64; in an operation of precision \<open>p\<close> it is
  converted to that precision first.\<close>

definition py_float :: "nat \<Rightarrow> real \<Rightarrow> real" where
  "py_float p c = fl p (fl 53 c)"

definition fmul :: "nat \<Rightarrow> real \<Rightarrow> real \<Rightarrow> real" where
  "fmul p a b = fl p (a * b)"

definition fadd :: "nat \<Rightarrow> real \<Rightarrow> real \<Rightarrow> real" where
  "fadd p a b = fl p (a + b)"

definition fsub :: "nat \<Rightarrow> real \<Rightarrow> real \<Rightarrow> real" where
  "fsub p a b = fl p (a - b)"

definition fdiv :: "nat \<Rightarrow> real \<Rightarrow> real \<Rightarrow> real" where
  "fdiv p a b = fl p (a / b)"

subsection \<open>Loading and the output array (lines 22--30)\<close>

text \<open>\<^verbatim>\<open>data = np.array(img, dtype=np.float32)\<close>: every 8-bit sample as a float.\<close>

definition np_array :: "uint8 buffer \<Rightarrow> real buffer" where
  "np_array img =
     map (map (\<lambda>(r, g, b, a). (real (unat r), real (unat g), real (unat b), real (unat a)))) img"

text \<open>The output array starts as a copy of the RGB channels with alpha 255.\<close>

definition init_result :: "real buffer \<Rightarrow> real buffer" where
  "init_result d = map (map (\<lambda>(r, g, b, a). (r, g, b, 255))) d"

subsection \<open>The classification loop (lines 34--58)\<close>

definition white_threshold :: real where
  "white_threshold = 235"

definition gradient_range :: real where
  "gradient_range = 40"

record state =
  data :: "real buffer"
  result :: "real buffer"
  pixels_modified :: nat

text \<open>\<^verbatim>\<open>result[y, x, 3] = v\<close>\<close>

definition set_alpha :: "real buffer \<Rightarrow> nat \<Rightarrow> nat \<Rightarrow> real \<Rightarrow> real buffer" where
  "set_alpha buf y x v =
     buf[y := (buf ! y)[x := (case buf ! y ! x of (r, g, b, a) \<Rightarrow> (r, g, b, v))]]"

text \<open>
  The body of the two nested tests on one pixel: \<open>Some alpha_factor\<close> when both tests
  pass and the alpha sample is rewritten, \<open>None\<close> when the pixel is left alone. The
  comparison of \<^verbatim>\<open>np.std\<close> with 15 is taken on the exact deviation: on 8-bit samples
  nine times the variance is an even integer, so the deviation is below 14.997 or above
  15.003 and the float32 rounding inside \<^verbatim>\<open>np.std\<close> cannot change the comparison.
\<close>

definition classify_fp :: "nat \<Rightarrow> real \<Rightarrow> real \<Rightarrow> real \<Rightarrow> real option" where
  "classify_fp p r g b =
     (let brightness =
            fadd p (fadd p (fmul p (py_float p 0.299) r) (fmul p (py_float p 0.587) g))
              (fmul p (py_float p 0.114) b);
          color_variance = np_std [r, g, b]
      in if brightness \<ge> white_threshold - gradient_range then
           if color_variance < 15 then
             (let alpha_factor =
                    fdiv p (fsub p brightness (white_threshold - gradient_range)) gradient_range;
                  alpha_factor = np_clip alpha_factor 0 1
              in Some alpha_factor)
           else None
         else None)"

text \<open>One iteration: the new alpha is computed in precision \<open>p\<close> and stored in the
  float32 array.\<close>

definition pixel_step_fp :: "nat \<Rightarrow> nat \<Rightarrow> nat \<Rightarrow> state \<Rightarrow> state" where
  "pixel_step_fp p y x st =
     (case data st ! y ! x of (r, g, b, a) \<Rightarrow>
        (case classify_fp p r g b of
           Some alpha_factor \<Rightarrow>
             st\<lparr>result := set_alpha (result st) y x (fl 24 (fmul p 255 (fsub p 1.0 alpha_factor))),
                pixels_modified := pixels_modified st + 1\<rparr>
         | None \<Rightarrow> st))"

definition pixel_loop_fp :: "nat \<Rightarrow> nat \<Rightarrow> nat \<Rightarrow> state \<Rightarrow> state" where
  "pixel_loop_fp p width height st =
     fold (\<lambda>y. fold (\<lambda>x. pixel_step_fp p y x) [0..<width]) [0..<height] st"

text \<open>Lines 22 to 58: the state after the loop, started on the loaded image.\<close>

definition composite_fp :: "nat \<Rightarrow> uint8 buffer \<Rightarrow> state" where
  "composite_fp p img =
     (let d = np_array img;
          (width, height) = img_size img
      in pixel_loop_fp p width height \<lparr>data = d, result = init_result d, pixels_modified = 0\<rparr>)"

subsection \<open>Back to 8-bit samples (line 63)\<close>

text \<open>\<^verbatim>\<open>np.clip(result, 0, 255).astype(np.uint8)\<close>\<close>

definition to_uint8 :: "real buffer \<Rightarrow> uint8 buffer" where
  "to_uint8 buf =
     map (map (\<lambda>(r, g, b, a).
       (astype_uint8 (np_clip r 0 255), astype_uint8 (np_clip g 0 255),
        astype_uint8 (np_clip b 0 255), astype_uint8 (np_clip a 0 255)))) buf"

definition composited_fp :: "nat \<Rightarrow> uint8 buffer \<Rightarrow> uint8 buffer" where
  "composited_fp p img = to_uint8 (result (composite_fp p img))"

subsection \<open>The loop in exact arithmetic\<close>

text \<open>The same loop with every operation exact.\<close>

definition classify :: "real \<Rightarrow> real \<Rightarrow> real \<Rightarrow> real option" where
  "classify r g b =
     (let brightness = 0.299 * r + 0.587 * g + 0.114 * b;
          color_variance = np_std [r, g, b]
      in if brightness \<ge> white_threshold - gradient_range then
           if color_variance < 15 then
             (let alpha_factor = (brightness - (white_threshold - gradient_range)) / gradient_range;
                  alpha_factor = np_clip alpha_factor 0 1
              in Some alpha_factor)
           else None
         else None)"





subsection \<open>Crop to content (lines 69--71)\<close>

text \<open>
  \<^verbatim>\<open>Image.getbbox()\<close> on an RGBA image: the box (left, upper, right, lower) of the
  pixels with nonzero alpha, right and lower exclusive, or \<^verbatim>\<open>None\<close> when there is no
  such pixel.
\<close>

definition has_data :: "uint8 pixel list \<Rightarrow> bool" where
  "has_data ps = list_ex (\<lambda>p. alpha p \<noteq> 0) ps"

definition data_rows :: "uint8 buffer \<Rightarrow> nat list" where
  "data_rows img = filter (\<lambda>y. has_data (img ! y)) [0..<img_height img]"

definition data_cols :: "uint8 buffer \<Rightarrow> nat list" where
  "data_cols img = filter (\<lambda>x. has_data (map (\<lambda>row. row ! x) img)) [0..<img_width img]"

definition getbbox :: "uint8 buffer \<Rightarrow> (nat \<times> nat \<times> nat \<times> nat) option" where
  "getbbox img =
     (if data_rows img = [] \<or> data_cols img = [] then None
      else Some (hd (data_cols img), hd (data_rows img),
                 last (data_cols img) + 1, last (data_rows img) + 1))"

text \<open>\<^verbatim>\<open>Image.crop(box)\<close>: the pixels of the box; what lies outside the image is zero.\<close>

definition crop :: "uint8 buffer \<Rightarrow> nat \<times> nat \<times> nat \<times> nat \<Rightarrow> uint8 buffer" where
  "crop img box =
     (case box of (left, upper, right, lower) \<Rightarrow>
        map (\<lambda>y. map (\<lambda>x. if y < length img \<and> x < length (img ! y) then img ! y ! x
                           else (0, 0, 0, 0))
                 [left..<right])
            [upper..<lower])"

definition crop_to_content :: "uint8 buffer \<Rightarrow> uint8 buffer" where
  "crop_to_content output_img =
     (case getbbox output_img of
        Some bbox \<Rightarrow> crop output_img bbox
      | None \<Rightarrow> output_img)"

subsection \<open>Target size and the call of the resampler (lines 76--90)\<close>

definition target_height :: int where
  "target_height = 80"

definition target_dims :: "nat \<Rightarrow> nat \<Rightarrow> error + (int \<times> int)" where
  "target_dims original_width original_height =
     (case true_div original_width original_height of
        Inl e \<Rightarrow> Inl e
      | Inr aspect_ratio \<Rightarrow>
          Inr (py_int (real_of_int target_height * aspect_ratio), target_height))"

text \<open>
  \<^verbatim>\<open>Image.resize(size, LANCZOS)\<close>: Pillow refuses a target side below 1 with a
  ValueError; otherwise it allocates an image of the requested size and fills every
  pixel from the Lanczos kernel. The kernel is the parameter \<open>lanczos\<close>:
  \<open>lanczos im size x y\<close> is the pixel at column \<open>x\<close> of row \<open>y\<close> of the image \<open>im\<close>
  resampled to \<open>size\<close>.
\<close>

type_synonym resampler = "uint8 buffer \<Rightarrow> int \<times> int \<Rightarrow> nat \<Rightarrow> nat \<Rightarrow> uint8 pixel"

definition resample :: "resampler \<Rightarrow> uint8 buffer \<Rightarrow> int \<times> int \<Rightarrow> uint8 buffer" where
  "resample lanczos im target =
     (case target of (xsize, ysize) \<Rightarrow>
        map (\<lambda>y. map (\<lambda>x. lanczos im (xsize, ysize) x y) [0..<nat xsize]) [0..<nat ysize])"

definition pil_resize :: "resampler \<Rightarrow> uint8 buffer \<Rightarrow> int \<times> int \<Rightarrow> error + uint8 buffer" where
  "pil_resize lanczos im target =
     (case target of (xsize, ysize) \<Rightarrow>
        if xsize < 1 \<or> ysize < 1 then Inl ValueError
        else Inr (resample lanczos im (xsize, ysize)))"

text \<open>
  \<^verbatim>\<open>Image.filter(ImageFilter.SHARPEN)\<close>: an image of the same size, every pixel
  computed by the convolution kernel, the parameter \<open>sharpen\<close>.
\<close>

type_synonym kernel = "uint8 buffer \<Rightarrow> nat \<Rightarrow> nat \<Rightarrow> uint8 pixel"

definition pil_filter :: "kernel \<Rightarrow> uint8 buffer \<Rightarrow> uint8 buffer" where
  "pil_filter sharpen im =
     map (\<lambda>y. map (\<lambda>x. sharpen im x y) [0..<img_width im]) [0..<img_height im]"

text \<open>Lines 76 to 90 on the cropped buffer: target size, resize, sharpen.\<close>

definition resize_and_sharpen :: "resampler \<Rightarrow> kernel \<Rightarrow> uint8 buffer \<Rightarrow> error + uint8 buffer" where
  "resize_and_sharpen lanczos sharpen output_img =
     (let (original_width, original_height) = img_size output_img
      in case target_dims original_width original_height of
           Inl e \<Rightarrow> Inl e
         | Inr target \<Rightarrow>
             (case pil_resize lanczos output_img target of
                Inl e \<Rightarrow> Inl e
              | Inr resized \<Rightarrow> Inr (pil_filter sharpen resized)))"

text \<open>Lines 69 to 90 on the 8-bit buffer \<open>output_img\<close>: crop to content, then the above.\<close>

definition crop_and_resize :: "resampler \<Rightarrow> kernel \<Rightarrow> uint8 buffer \<Rightarrow> error + uint8 buffer" where
  "crop_and_resize lanczos sharpen output_img =
     resize_and_sharpen lanczos sharpen (crop_to_content output_img)"

text \<open>The whole function on a loaded image.\<close>

definition remove_background_hd ::
  "nat \<Rightarrow> resampler \<Rightarrow> kernel \<Rightarrow> uint8 buffer \<Rightarrow> error + uint8 buffer" where
  "remove_background_hd p lanczos sharpen img =
     crop_and_resize lanczos sharpen (composited_fp p img)"

subsection \<open>Notions used in the statements\<close>

text \<open>The brightness the loop body computes, whether both of its tests pass, and the
  confidence it computes: the clipped ramp, and 0 when the pixel is left at alpha 255.\<close>

definition brightness_fp :: "nat \<Rightarrow> real \<Rightarrow> real \<Rightarrow> real \<Rightarrow> real" where
  "brightness_fp p r g b =
     fadd p (fadd p (fmul p (py_float p 0.299) r) (fmul p (py_float p 0.587) g))
       (fmul p (py_float p 0.114) b)"

definition eligible_fp :: "nat \<Rightarrow> real \<Rightarrow> real \<Rightarrow> real \<Rightarrow> bool" where
  "eligible_fp p r g b = (classify_fp p r g b \<noteq> None)"

definition alpha_factor_fp :: "nat \<Rightarrow> real \<Rightarrow> real \<Rightarrow> real \<Rightarrow> real" where
  "alpha_factor_fp p r g b = (case classify_fp p r g b of Some a \<Rightarrow> a | None \<Rightarrow> 0)"

text \<open>The same notions for the loop in exact arithmetic.\<close>

definition eligible :: "real \<Rightarrow> real \<Rightarrow> real \<Rightarrow> bool" where
  "eligible r g b = (classify r g b \<noteq> None)"

definition alpha_factor :: "real \<Rightarrow> real \<Rightarrow> real \<Rightarrow> real" where
  "alpha_factor r g b = (case classify r g b of Some a \<Rightarrow> a | None \<Rightarrow> 0)"

text \<open>Luminance and colour variance in the words of the specification.\<close>

definition luminance :: "real \<Rightarrow> real \<Rightarrow> real \<Rightarrow> real" where
  "luminance r g b = 0.299 * r + 0.587 * g + 0.114 * b"

definition population_std :: "real \<Rightarrow> real \<Rightarrow> real \<Rightarrow> real" where
  "population_std r g b =
     (let m = (r + g + b) / 3 in sqrt (((r - m)\<^sup>2 + (g - m)\<^sup>2 + (b - m)\<^sup>2) / 3))"




definition write_alpha_fp :: "nat \<Rightarrow> real pixel \<Rightarrow> real pixel \<Rightarrow> real pixel" where
  "write_alpha_fp p d q =
     (case d of (r, g, b, a) \<Rightarrow>
        (case classify_fp p r g b of
           Some af \<Rightarrow>
             (case q of (r', g', b', a') \<Rightarrow> (r', g', b', fl 24 (fmul p 255 (fsub p 1 af))))
         | None \<Rightarrow> q))"

definition row_after_fp ::
  "nat \<Rightarrow> nat \<Rightarrow> real pixel list \<Rightarrow> real pixel list \<Rightarrow> real pixel list" where
  "row_after_fp p n drow rrow =
     map (\<lambda>x. if x < n then write_alpha_fp p (drow ! x) (rrow ! x) else rrow ! x)
       [0..<length rrow]"

definition rows_after_fp ::
  "nat \<Rightarrow> nat \<Rightarrow> nat \<Rightarrow> real buffer \<Rightarrow> real buffer \<Rightarrow> real buffer" where
  "rows_after_fp p m w d r =
     map (\<lambda>y. if y < m then row_after_fp p w (d ! y) (r ! y) else r ! y) [0..<length r]"

text \<open>The pipeline up to line 63 seen pixel by pixel.\<close>

definition float_pixel :: "uint8 pixel \<Rightarrow> real pixel" where
  "float_pixel p =
     (case p of (r, g, b, a) \<Rightarrow> (real (unat r), real (unat g), real (unat b), real (unat a)))"


definition uint8_pixel :: "real pixel \<Rightarrow> uint8 pixel" where
  "uint8_pixel p =
     (case p of (r, g, b, a) \<Rightarrow>
        (astype_uint8 (np_clip r 0 255), astype_uint8 (np_clip g 0 255),
         astype_uint8 (np_clip b 0 255), astype_uint8 (np_clip a 0 255)))"


definition composite_pixel_fp :: "nat \<Rightarrow> real pixel \<Rightarrow> real pixel" where
  "composite_pixel_fp p q =
     (case q of (r, g, b, a) \<Rightarrow>
        (r, g, b,
         case classify_fp p r g b of
           Some af \<Rightarrow> fl 24 (fmul p 255 (fsub p 1 af))
         | None \<Rightarrow> 255))"

definition composite_pixel8_fp :: "nat \<Rightarrow> uint8 pixel \<Rightarrow> uint8 pixel" where
  "composite_pixel8_fp p q = uint8_pixel (composite_pixel_fp p (float_pixel q))"




text \<open>Stand-ins for the two kernels in the examples: the resampled pixel is the first
  pixel of the source, the filtered pixel is the pixel itself.\<close>

definition first_pixel :: resampler where
  "first_pixel im target x y = hd (hd im)"

definition same_pixel :: kernel where
  "same_pixel im x y = im ! y ! x"

text \<open>The target width in the words of the specification.\<close>

definition spec_target_width :: "nat \<Rightarrow> nat \<Rightarrow> int" where
  "spec_target_width cropped_width cropped_height =
     round (80 * real cropped_width / real cropped_height)"

subsection \<open>Example buffers\<close>



definition red_column :: "uint8 buffer" where
  "red_column = [[(200, 30, 30, 255)], [(200, 30, 30, 255)], [(200, 30, 30, 255)]]"

definition tall_column :: "uint8 buffer" where
  "tall_column = replicate 81 [(200, 30, 30, 255)]"

definition white_and_red :: "uint8 buffer" where
  "white_and_red = [[(255, 255, 255, 7), (200, 30, 30, 255)]]"

definition speck :: "uint8 buffer" where
  "speck = [[(0, 0, 0, 0), (9, 9, 9, 0), (1, 2, 3, 0)], [(0, 0, 0, 0), (5, 6, 7, 255), (0, 0, 0, 0)]]"

definition white_dot :: "uint8 buffer" where
  "white_dot = [[(255, 255, 255, 255)]]"

definition grey_dot :: "uint8 buffer" where
  "grey_dot = [[(219, 219, 219, 255)]]"




section \<open>Target size\<close>

lemma floor_80: "\<lfloor>80 * real w / real h\<rfloor> = int ((80 * w) div h)"
proof -
  have "80 * real w / real h = real (80 * w) / real h"
    by simp
  then show ?thesis
    by (simp only: floor_divide_of_nat_eq)
qed

lemma target_dims_floor:
  "0 < h \<Longrightarrow> target_dims w h = Inr (int ((80 * w) div h), 80)"
  by (simp add: target_dims_def true_div_def py_int_def target_height_def floor_80)

lemma target_dims_zero: "target_dims w 0 = Inl ZeroDivisionError"
  by (simp add: target_dims_def true_div_def)

text \<open>
  C8. For a cropped buffer of positive width and height the target size is
  (target\_width, 80) with target\_width within 1 of 80 * width / height.
\<close>

theorem aspect_ratio_preserved:
  "0 < w \<Longrightarrow> 0 < h \<Longrightarrow>
   \<exists>tw. target_dims w h = Inr (tw, 80) \<and> \<bar>real_of_int tw - 80 * real w / real h\<bar> \<le> 1"
  by (simp add: target_dims_def true_div_def py_int_def target_height_def) linarith

theorem aspect_ratio_preserved_witness:
  "(0::nat) < 16 \<and> (0::nat) < 9 \<and>
   (\<exists>tw. target_dims 16 9 = Inr (tw, 80) \<and> \<bar>real_of_int tw - 80 * real 16 / real 9\<bar> \<le> 1)"
  using aspect_ratio_preserved [of 16 9] by simp

section \<open>The loop computes a pixelwise map\<close>












lemma rectangular_nth: "rectangular img \<Longrightarrow> y < length img \<Longrightarrow> length (img ! y) = img_width img"
  by (simp add: rectangular_def list_all_length)

lemma np_array_length: "length (np_array img) = length img"
  by (simp add: np_array_def)

lemma np_array_row_length: "y < length img \<Longrightarrow> length (np_array img ! y) = length (img ! y)"
  by (simp add: np_array_def)




section \<open>The floating-point loop computes a pixelwise map\<close>

lemma pixel_step_data_fp: "data (pixel_step_fp p y x st) = data st"
  by (simp add: pixel_step_fp_def split: prod.splits option.splits)

lemma pixel_step_result_fp:
  "result (pixel_step_fp p y x st) =
     (result st)[y := (result st ! y)[x := write_alpha_fp p (data st ! y ! x) (result st ! y ! x)]]"
  by (simp add: pixel_step_fp_def write_alpha_fp_def set_alpha_def split: prod.splits option.splits)

lemma row_fold_data_fp: "data (fold (pixel_step_fp p y) xs st) = data st"
  by (induction xs arbitrary: st) (simp_all add: pixel_step_data_fp)

lemma row_after_0_fp: "row_after_fp p 0 drow rrow = rrow"
  by (simp add: row_after_fp_def map_nth)

lemma row_after_Suc_fp:
  "(row_after_fp p n drow rrow)[n := write_alpha_fp p (drow ! n) (row_after_fp p n drow rrow ! n)] =
   row_after_fp p (Suc n) drow rrow"
proof (rule nth_equalityI)
  show "length ((row_after_fp p n drow rrow)[n := write_alpha_fp p (drow ! n) (row_after_fp p n drow rrow ! n)]) =
        length (row_after_fp p (Suc n) drow rrow)"
    by (simp add: row_after_fp_def)
next
  fix i
  assume "i < length ((row_after_fp p n drow rrow)[n := write_alpha_fp p (drow ! n) (row_after_fp p n drow rrow ! n)])"
  then have i: "i < length rrow"
    by (simp add: row_after_fp_def)
  show "(row_after_fp p n drow rrow)[n := write_alpha_fp p (drow ! n) (row_after_fp p n drow rrow ! n)] ! i =
        row_after_fp p (Suc n) drow rrow ! i"
  proof (cases "i = n")
    case True
    with i show ?thesis by (simp add: row_after_fp_def)
  next
    case False
    with i show ?thesis by (auto simp: row_after_fp_def)
  qed
qed

lemma row_fold_result_fp:
  "y < length (result st) \<Longrightarrow>
   result (fold (pixel_step_fp p y) [0..<n] st) =
     (result st)[y := row_after_fp p n (data st ! y) (result st ! y)]"
proof (induction n)
  case 0
  then show ?case by (simp add: row_after_0_fp)
next
  case (Suc n)
  then show ?case
    by (simp add: pixel_step_result_fp row_fold_data_fp row_after_Suc_fp)
qed

lemma rows_after_0_fp: "rows_after_fp p 0 w d r = r"
  by (simp add: rows_after_fp_def map_nth)

lemma rows_after_length_fp: "length (rows_after_fp p m w d r) = length r"
  by (simp add: rows_after_fp_def)

lemma rows_after_Suc_fp:
  "(rows_after_fp p m w d r)[m := row_after_fp p w (d ! m) (rows_after_fp p m w d r ! m)] = rows_after_fp p (Suc m) w d r"
proof (rule nth_equalityI)
  show "length ((rows_after_fp p m w d r)[m := row_after_fp p w (d ! m) (rows_after_fp p m w d r ! m)]) =
        length (rows_after_fp p (Suc m) w d r)"
    by (simp add: rows_after_fp_def)
next
  fix i
  assume "i < length ((rows_after_fp p m w d r)[m := row_after_fp p w (d ! m) (rows_after_fp p m w d r ! m)])"
  then have i: "i < length r"
    by (simp add: rows_after_fp_def)
  show "(rows_after_fp p m w d r)[m := row_after_fp p w (d ! m) (rows_after_fp p m w d r ! m)] ! i =
        rows_after_fp p (Suc m) w d r ! i"
  proof (cases "i = m")
    case True
    with i show ?thesis by (simp add: rows_after_fp_def)
  next
    case False
    with i show ?thesis by (auto simp: rows_after_fp_def)
  qed
qed

lemma loop_fold_data_fp: "data (fold (\<lambda>y. fold (pixel_step_fp p y) xs) ys st) = data st"
  by (induction ys arbitrary: st) (simp_all add: row_fold_data_fp)

lemma loop_fold_result_fp:
  "m \<le> length (result st) \<Longrightarrow>
   result (fold (\<lambda>y. fold (pixel_step_fp p y) [0..<w]) [0..<m] st) =
     rows_after_fp p m w (data st) (result st)"
proof (induction m)
  case 0
  then show ?case by (simp add: rows_after_0_fp)
next
  case (Suc m)
  then show ?case
    by (simp add: row_fold_result_fp loop_fold_data_fp rows_after_length_fp rows_after_Suc_fp)
qed

lemma write_alpha_init_fp:
  "write_alpha_fp p q (case q of (r, g, b, a) \<Rightarrow> (r, g, b, 255)) = composite_pixel_fp p q"
  by (simp add: write_alpha_fp_def composite_pixel_fp_def split: prod.splits option.splits)

lemma row_after_init_fp:
  "row_after_fp p (length drow) drow (map (\<lambda>(r, g, b, a). (r, g, b, 255)) drow) = map (composite_pixel_fp p) drow"
  by (rule nth_equalityI) (simp_all add: row_after_fp_def write_alpha_init_fp)

lemma composite_data_fp: "data (composite_fp p img) = np_array img"
  by (simp add: composite_fp_def Let_def img_size_def pixel_loop_fp_def loop_fold_data_fp)

lemma composite_result_fp:
  assumes "rectangular img"
  shows "result (composite_fp p img) = map (map (composite_pixel_fp p)) (np_array img)"
proof -
  let ?d = "np_array img"
  have "result (composite_fp p img) = rows_after_fp p (length img) (img_width img) ?d (init_result ?d)"
    by (simp add: composite_fp_def Let_def img_size_def img_height_def pixel_loop_fp_def loop_fold_result_fp
        init_result_def np_array_length)
  also have "\<dots> = map (map (composite_pixel_fp p)) ?d"
  proof (rule nth_equalityI)
    show "length (rows_after_fp p (length img) (img_width img) ?d (init_result ?d)) =
          length (map (map (composite_pixel_fp p)) ?d)"
      by (simp add: rows_after_length_fp init_result_def)
  next
    fix y
    assume "y < length (rows_after_fp p (length img) (img_width img) ?d (init_result ?d))"
    then have y: "y < length img"
      by (simp add: rows_after_length_fp init_result_def np_array_length)
    then have w: "img_width img = length (?d ! y)"
      using assms by (simp add: rectangular_nth np_array_row_length)
    from y show "rows_after_fp p (length img) (img_width img) ?d (init_result ?d) ! y =
                 map (map (composite_pixel_fp p)) ?d ! y"
      by (simp add: rows_after_fp_def init_result_def np_array_length w row_after_init_fp)
  qed
  finally show ?thesis .
qed

section \<open>The classifier\<close>

lemma np_std_3: "np_std [r, g, b] = population_std r g b"
  by (simp add: np_std_def population_std_def Let_def add.assoc)

lemma sqrt_less_15: "sqrt x < 15 \<longleftrightarrow> x < 225"
proof -
  have "sqrt 225 = 15"
    by (rule real_sqrt_unique) simp_all
  then show ?thesis
    by (metis real_sqrt_less_iff)
qed

lemma np_clip_mono: "x \<le> y \<Longrightarrow> np_clip x 0 1 \<le> np_clip y 0 1"
  by (simp add: np_clip_def min_def max_def)

lemma np_clip_nonneg: "0 \<le> np_clip x 0 1"
  by (simp add: np_clip_def)

lemma np_clip_le_1: "np_clip x 0 1 \<le> 1"
  by (simp add: np_clip_def)

section \<open>The compositor\<close>

lemma astype_uint8_nat: "n < 256 \<Longrightarrow> astype_uint8 (np_clip (real n) 0 255) = of_nat n"
  by (simp add: np_clip_def astype_uint8_def py_int_def)

lemma astype_uint8_sample: "astype_uint8 (np_clip (unsigned c) 0 255) = (c :: uint8)"
proof -
  have "unat c < 256"
    using unsigned_less [of c, where ?'a = nat] by simp
  then have "astype_uint8 (np_clip (real (unat c)) 0 255) = of_nat (unat c)"
    by (rule astype_uint8_nat)
  then show ?thesis
    by simp
qed

lemma np_array_map: "np_array img = map (map float_pixel) img"
  by (simp add: np_array_def float_pixel_def [abs_def])

lemma to_uint8_map: "to_uint8 buf = map (map uint8_pixel) buf"
  by (simp add: to_uint8_def uint8_pixel_def [abs_def])




lemma rectangular_map: "rectangular (map (map f) img) = rectangular img"
  by (cases img) (simp_all add: rectangular_def img_width_def list_all_iff)

lemma img_width_map: "img_width (map (map f) img) = img_width img"
  by (cases img) (simp_all add: img_width_def)

lemma img_size_map: "img_size (map (map f) img) = img_size img"
  by (simp add: img_size_def img_width_map img_height_def)



section \<open>Bounding box and crop\<close>

lemma sorted_hd_le: "sorted xs \<Longrightarrow> x \<in> set xs \<Longrightarrow> hd xs \<le> (x::nat)"
  by (cases xs) auto

lemma sorted_le_last: "sorted xs \<Longrightarrow> x \<in> set xs \<Longrightarrow> (x::nat) \<le> last xs"
  by (induction xs) auto

lemma sorted_filter_upt: "sorted (filter P [0..<n])"
  by (simp add: sorted_wrt_filter)

lemma filter_upt_hd:
  assumes "filter P [0..<n] \<noteq> []"
  shows "P (hd (filter P [0..<n]))" and "hd (filter P [0..<n]) < n"
    and "\<And>i. i < n \<Longrightarrow> P i \<Longrightarrow> hd (filter P [0..<n]) \<le> i"
proof -
  from assms have "hd (filter P [0..<n]) \<in> set (filter P [0..<n])"
    by (rule hd_in_set)
  then show "P (hd (filter P [0..<n]))" and "hd (filter P [0..<n]) < n"
    by simp_all
  fix i
  assume "i < n" and "P i"
  then have "i \<in> set (filter P [0..<n])"
    by simp
  then show "hd (filter P [0..<n]) \<le> i"
    by (rule sorted_hd_le [OF sorted_filter_upt])
qed

lemma filter_upt_last:
  assumes "filter P [0..<n] \<noteq> []"
  shows "P (last (filter P [0..<n]))" and "last (filter P [0..<n]) < n"
    and "\<And>i. i < n \<Longrightarrow> P i \<Longrightarrow> i \<le> last (filter P [0..<n])"
proof -
  from assms have "last (filter P [0..<n]) \<in> set (filter P [0..<n])"
    by (rule last_in_set)
  then show "P (last (filter P [0..<n]))" and "last (filter P [0..<n]) < n"
    by simp_all
  fix i
  assume "i < n" and "P i"
  then have "i \<in> set (filter P [0..<n])"
    by simp
  then show "i \<le> last (filter P [0..<n])"
    by (rule sorted_le_last [OF sorted_filter_upt])
qed

lemma filter_upt_empty: "filter P [0..<n] = [] \<longleftrightarrow> (\<forall>i<n. \<not> P i)"
  by (auto simp: filter_empty_conv)

lemma has_data_row:
  "has_data row \<longleftrightarrow> (\<exists>x<length row. alpha (row ! x) \<noteq> 0)"
  by (simp add: has_data_def list_ex_length)

lemma has_data_col:
  "has_data (map (\<lambda>row. row ! x) img) \<longleftrightarrow> (\<exists>y<length img. alpha (img ! y ! x) \<noteq> 0)"
  by (auto simp: has_data_def list_ex_length)

lemma data_rows_empty:
  "rectangular img \<Longrightarrow>
   data_rows img = [] \<longleftrightarrow> (\<forall>y<img_height img. \<forall>x<img_width img. alpha (img ! y ! x) = 0)"
  by (auto simp: data_rows_def filter_upt_empty has_data_row img_height_def rectangular_nth)

lemma data_cols_empty:
  "data_cols img = [] \<longleftrightarrow> (\<forall>y<img_height img. \<forall>x<img_width img. alpha (img ! y ! x) = 0)"
  by (auto simp: data_cols_def filter_upt_empty has_data_col img_height_def)

lemma getbbox_None:
  "rectangular img \<Longrightarrow>
   getbbox img = None \<longleftrightarrow> (\<forall>y<img_height img. \<forall>x<img_width img. alpha (img ! y ! x) = 0)"
  by (simp add: getbbox_def data_rows_empty data_cols_empty)

lemma getbbox_SomeD:
  assumes rect: "rectangular img" and box: "getbbox img = Some (l, u, r, d)"
  shows "l < r" and "r \<le> img_width img" and "u < d" and "d \<le> img_height img"
    and "\<And>x y. y < img_height img \<Longrightarrow> x < img_width img \<Longrightarrow> alpha (img ! y ! x) \<noteq> 0 \<Longrightarrow>
           l \<le> x \<and> x < r \<and> u \<le> y \<and> y < d"
    and "\<exists>x<img_width img. alpha (img ! u ! x) \<noteq> 0"
    and "\<exists>x<img_width img. alpha (img ! (d - 1) ! x) \<noteq> 0"
    and "\<exists>y<img_height img. alpha (img ! y ! l) \<noteq> 0"
    and "\<exists>y<img_height img. alpha (img ! y ! (r - 1)) \<noteq> 0"
proof -
  let ?Pr = "\<lambda>y. has_data (img ! y)"
  let ?Pc = "\<lambda>x. has_data (map (\<lambda>row. row ! x) img)"
  let ?rows = "filter ?Pr [0..<img_height img]"
  let ?cols = "filter ?Pc [0..<img_width img]"
  from box have ne: "?rows \<noteq> []" "?cols \<noteq> []"
    and l: "l = hd ?cols" and u: "u = hd ?rows"
    and r: "r = last ?cols + 1" and d: "d = last ?rows + 1"
    by (simp_all add: getbbox_def data_rows_def data_cols_def split: if_splits)
  note rh = filter_upt_hd [OF ne(1)] and rl = filter_upt_last [OF ne(1)]
    and ch = filter_upt_hd [OF ne(2)] and cl = filter_upt_last [OF ne(2)]
  from ch(3) [OF cl(2) cl(1)] show "l < r"
    by (simp add: l r)
  from cl(2) show "r \<le> img_width img"
    by (simp add: r)
  from rh(3) [OF rl(2) rl(1)] show "u < d"
    by (simp add: u d)
  from rl(2) show "d \<le> img_height img"
    by (simp add: d)
  show "l \<le> x \<and> x < r \<and> u \<le> y \<and> y < d"
    if "y < img_height img" and "x < img_width img" and "alpha (img ! y ! x) \<noteq> 0" for x y
  proof -
    from that have "?Pc x"
      by (auto simp: has_data_col img_height_def)
    moreover from that rect have "?Pr y"
      by (auto simp: has_data_row img_height_def rectangular_nth)
    ultimately show ?thesis
      using ch(3) [of x] cl(3) [of x] rh(3) [of y] rl(3) [of y] that
      by (simp add: l u r d)
  qed
  from rh(1) rh(2) rect show "\<exists>x<img_width img. alpha (img ! u ! x) \<noteq> 0"
    by (simp add: u has_data_row img_height_def rectangular_nth)
  from rl(1) rl(2) rect show "\<exists>x<img_width img. alpha (img ! (d - 1) ! x) \<noteq> 0"
    by (simp add: d has_data_row img_height_def rectangular_nth)
  from ch(1) show "\<exists>y<img_height img. alpha (img ! y ! l) \<noteq> 0"
    by (simp add: l has_data_col img_height_def)
  from cl(1) show "\<exists>y<img_height img. alpha (img ! y ! (r - 1)) \<noteq> 0"
    by (simp add: r has_data_col img_height_def)
qed

lemma getbbox_Some_ex:
  assumes "rectangular img" and "y < img_height img" and "x < img_width img"
    and "alpha (img ! y ! x) \<noteq> 0"
  shows "\<exists>l u r d. getbbox img = Some (l, u, r, d)"
proof -
  from assms have "getbbox img \<noteq> None"
    by (auto simp: getbbox_None)
  then show ?thesis
    by (cases "getbbox img") auto
qed

lemma crop_inside:
  assumes "rectangular img" and "r \<le> img_width img" and "d \<le> img_height img"
  shows "crop img (l, u, r, d) = map (\<lambda>y. map (\<lambda>x. img ! y ! x) [l..<r]) [u..<d]"
  using assms by (simp add: crop_def img_height_def rectangular_nth)

lemma has_data_map_upt:
  "has_data (map f [a..<b]) \<longleftrightarrow> (\<exists>i. a \<le> i \<and> i < b \<and> alpha (f i) \<noteq> 0)"
  by (auto simp: has_data_def list_ex_iff)

text \<open>
  C1. On a buffer with a pixel of nonzero alpha, the crop is the sub-rectangle of the
  bounding box returned by getbbox; the box lies inside the image, encloses every pixel
  of nonzero alpha, is contained in every box that does, and the first and last row and
  the first and last column of the cropped buffer each hold a pixel of nonzero alpha.
\<close>

theorem crop_tight:
  assumes "rectangular img" and "y0 < img_height img" and "x0 < img_width img"
    and "alpha (img ! y0 ! x0) \<noteq> 0"
  shows "\<exists>l u r d.
     getbbox img = Some (l, u, r, d) \<and> l < r \<and> r \<le> img_width img \<and> u < d \<and> d \<le> img_height img \<and>
     crop_to_content img = map (\<lambda>y. map (\<lambda>x. img ! y ! x) [l..<r]) [u..<d] \<and>
     (\<forall>x y. y < img_height img \<longrightarrow> x < img_width img \<longrightarrow> alpha (img ! y ! x) \<noteq> 0 \<longrightarrow>
        l \<le> x \<and> x < r \<and> u \<le> y \<and> y < d) \<and>
     (\<forall>l' u' r' d'.
        (\<forall>x y. y < img_height img \<longrightarrow> x < img_width img \<longrightarrow> alpha (img ! y ! x) \<noteq> 0 \<longrightarrow>
           l' \<le> x \<and> x < r' \<and> u' \<le> y \<and> y < d') \<longrightarrow>
        l' \<le> l \<and> u' \<le> u \<and> r \<le> r' \<and> d \<le> d') \<and>
     has_data (hd (crop_to_content img)) \<and> has_data (last (crop_to_content img)) \<and>
     has_data (map hd (crop_to_content img)) \<and> has_data (map last (crop_to_content img))"
proof -
  from getbbox_Some_ex [OF assms] obtain l u r d where box: "getbbox img = Some (l, u, r, d)"
    by blast
  note D = getbbox_SomeD [OF assms(1) box]
  let ?c = "map (\<lambda>y. map (\<lambda>x. img ! y ! x) [l..<r]) [u..<d]"
  have c: "crop_to_content img = ?c"
    by (simp add: crop_to_content_def box crop_inside [OF assms(1) D(2) D(4)])
  from D(6) obtain xu where xu: "xu < img_width img" "alpha (img ! u ! xu) \<noteq> 0"
    by blast
  from D(7) obtain xd where xd: "xd < img_width img" "alpha (img ! (d - 1) ! xd) \<noteq> 0"
    by blast
  from D(8) obtain yl where yl: "yl < img_height img" "alpha (img ! yl ! l) \<noteq> 0"
    by blast
  from D(9) obtain yr where yr: "yr < img_height img" "alpha (img ! yr ! (r - 1)) \<noteq> 0"
    by blast
  have in_u: "l \<le> xu \<and> xu < r"
    using D(5) [of u xu] xu D(3) D(4) by simp
  have in_d: "l \<le> xd \<and> xd < r"
    using D(5) [of "d - 1" xd] xd D(3) D(4) by simp
  have in_l: "u \<le> yl \<and> yl < d"
    using D(5) [of yl l] yl D(1) D(2) by simp
  have in_r: "u \<le> yr \<and> yr < d"
    using D(5) [of yr "r - 1"] yr D(1) D(2) by simp
  have top: "has_data (hd ?c)"
    using D(3) in_u xu(2) by (auto simp: hd_map has_data_map_upt)
  have bottom: "has_data (last ?c)"
    using D(3) in_d xd(2) by (auto simp: last_map has_data_map_upt)
  have left: "has_data (map hd ?c)"
    using D(1) in_l yl(2) by (auto simp: o_def hd_map has_data_map_upt)
  have right: "has_data (map last ?c)"
    using D(1) in_r yr(2) by (auto simp: o_def last_map has_data_map_upt)
  have minimal: "l' \<le> l \<and> u' \<le> u \<and> r \<le> r' \<and> d \<le> d'"
    if enc: "\<forall>x y. y < img_height img \<longrightarrow> x < img_width img \<longrightarrow> alpha (img ! y ! x) \<noteq> 0 \<longrightarrow>
           l' \<le> x \<and> x < r' \<and> u' \<le> y \<and> y < d'" for l' u' r' d'
  proof -
    from enc xu D(3) D(4) have "u' \<le> u" by auto
    moreover from enc xd D(3) D(4) have "d - 1 < d'" by auto
    moreover from enc yl D(1) D(2) have "l' \<le> l" by auto
    moreover from enc yr D(1) D(2) have "r - 1 < r'" by auto
    ultimately show ?thesis
      using D(1) D(3) by arith
  qed
  show ?thesis
    apply (rule exI [of _ l], rule exI [of _ u], rule exI [of _ r], rule exI [of _ d])
    unfolding c using box D(1-5) top bottom left right minimal by blast
qed

theorem crop_tight_witness:
  "rectangular speck \<and> alpha (speck ! 1 ! 1) \<noteq> 0 \<and>
   getbbox speck = Some (1, 1, 2, 2) \<and> crop_to_content speck = [[(5, 6, 7, 255)]] \<and>
   has_data (hd (crop_to_content speck))"
proof -
  have h: "rectangular speck" "1 < img_height speck" "1 < img_width speck"
      "alpha (speck ! 1 ! 1) \<noteq> 0"
    by code_simp+
  have e: "getbbox speck = Some (1, 1, 2, 2)" "crop_to_content speck = [[(5, 6, 7, 255)]]"
    by code_simp+
  from crop_tight [OF h] have "has_data (hd (crop_to_content speck))"
    by blast
  with h e show ?thesis
    by simp
qed

section \<open>Independence of the input alpha\<close>








section \<open>The height of the cropped buffer\<close>

text \<open>
  Lines 76 and 77 divide the cropped width by the cropped height without a check. The
  cropped height is 0 only when the image itself has height 0, and then the division
  raises ZeroDivisionError.
\<close>

lemma crop_height:
  assumes "rectangular img"
  shows "img_height (crop_to_content img) = 0 \<longleftrightarrow> img_height img = 0"
proof (cases "getbbox img")
  case None
  then show ?thesis
    by (simp add: crop_to_content_def)
next
  case (Some box)
  obtain l u r d where b: "box = (l, u, r, d)"
    by (cases box)
  note D = getbbox_SomeD [OF assms Some [unfolded b]]
  from D(3) D(4) show ?thesis
    by (auto simp: crop_to_content_def Some b crop_def img_height_def)
qed

section \<open>The bordered rectangle\<close>


lemma grid_size: "0 < h \<Longrightarrow> img_size (map (\<lambda>y. map (f y) [0..<w]) [0..<h]) = (w, h)"
  by (cases h) (simp_all add: img_size_def img_width_def img_height_def upt_conv_Cons del: upt_Suc)

lemma getbbox_solid:
  assumes rect: "rectangular img" and lr: "l < r" "r \<le> img_width img"
    and ud: "u < d" "d \<le> img_height img"
    and solid: "\<And>x y. y < img_height img \<Longrightarrow> x < img_width img \<Longrightarrow>
                  alpha (img ! y ! x) \<noteq> 0 \<longleftrightarrow> l \<le> x \<and> x < r \<and> u \<le> y \<and> y < d"
  shows "getbbox img = Some (l, u, r, d)"
proof -
  from lr ud have in0: "u < img_height img" "l < img_width img"
    and in1: "d - 1 < img_height img" "r - 1 < img_width img"
    by arith+
  from lr ud have nz0: "alpha (img ! u ! l) \<noteq> 0"
    by (simp add: solid [OF in0])
  from lr ud have "l \<le> r - 1 \<and> r - 1 < r \<and> u \<le> d - 1 \<and> d - 1 < d"
    by arith
  then have nz1: "alpha (img ! (d - 1) ! (r - 1)) \<noteq> 0"
    by (simp only: solid [OF in1])
  from getbbox_Some_ex [OF rect in0 nz0] obtain l' u' r' d'
    where box: "getbbox img = Some (l', u', r', d')"
    by blast
  note D = getbbox_SomeD [OF rect box]
  from D(5) [OF in0 nz0] have a: "l' \<le> l" "u' \<le> u"
    by simp_all
  from D(5) [OF in1 nz1] have b: "r \<le> r'" "d \<le> d'"
    by arith+
  from D(6) obtain x where x: "x < img_width img" "alpha (img ! u' ! x) \<noteq> 0"
    by blast
  from D(3) D(4) have "u' < img_height img"
    by simp
  from solid [OF this x(1)] x(2) have c1: "u \<le> u'"
    by simp
  from D(7) obtain x where x: "x < img_width img" "alpha (img ! (d' - 1) ! x) \<noteq> 0"
    by blast
  from D(3) D(4) have "d' - 1 < img_height img"
    by arith
  from solid [OF this x(1)] x(2) have c2: "d' \<le> d"
    by arith
  from D(8) obtain y where y: "y < img_height img" "alpha (img ! y ! l') \<noteq> 0"
    by blast
  from D(1) D(2) have "l' < img_width img"
    by simp
  from solid [OF y(1) this] y(2) have c3: "l \<le> l'"
    by simp
  from D(9) obtain y where y: "y < img_height img" "alpha (img ! y ! (r' - 1)) \<noteq> 0"
    by blast
  from D(1) D(2) have "r' - 1 < img_width img"
    by arith
  from solid [OF y(1) this] y(2) have c4: "r' \<le> r"
    by arith
  from a b c1 c2 c3 c4 box show ?thesis
    by simp
qed









lemma replicate_size: "0 < h \<Longrightarrow> img_size (replicate h (replicate w c)) = (w, h)"
  by (cases h) (simp_all add: img_size_def img_width_def img_height_def)

section \<open>Rounding to a floating-point number\<close>

lemma round_even_cases: "round_even x = \<lfloor>x\<rfloor> \<or> round_even x = \<lfloor>x\<rfloor> + 1"
  by (simp add: round_even_def Let_def)

lemma round_even_error: "\<bar>of_int (round_even x) - x\<bar> \<le> 1 / 2"
  unfolding round_even_def Let_def by (auto simp: abs_le_iff)

lemma round_even_int: "round_even (of_int n) = n"
  by (simp add: round_even_def)

lemma round_even_mono:
  assumes "x \<le> y"
  shows "round_even x \<le> round_even y"
proof (cases "\<lfloor>x\<rfloor> = \<lfloor>y\<rfloor>")
  case True
  with assms show ?thesis
    by (auto simp: round_even_def Let_def)
next
  case False
  with assms have "\<lfloor>x\<rfloor> < \<lfloor>y\<rfloor>"
    by (simp add: floor_mono le_neq_trans)
  moreover have "round_even x \<le> \<lfloor>x\<rfloor> + 1" and "\<lfloor>y\<rfloor> \<le> round_even y"
    using round_even_cases [of x] round_even_cases [of y] by auto
  ultimately show ?thesis
    by linarith
qed

lemma round_even_ge: "of_int n \<le> x \<Longrightarrow> n \<le> round_even x"
  using round_even_mono [of "of_int n" x] by (simp add: round_even_int)

lemma round_even_le: "x \<le> of_int n \<Longrightarrow> round_even x \<le> n"
  using round_even_mono [of x "of_int n"] by (simp add: round_even_int)

lemma floor_log2_powi:
  assumes "0 < x"
  shows "\<lfloor>log 2 x\<rfloor> = e \<longleftrightarrow> 2 powi e \<le> x \<and> x < 2 powi (e + 1)"
proof -
  have "(2::real) powr real_of_int e = 2 powi e"
    and "(2::real) powr real_of_int (e + 1) = 2 powi (e + 1)"
    by (rule powr_real_of_int'; simp)+
  with floor_log_eq_powr_iff [of x 2 e] assms show ?thesis
    by simp
qed

lemma expo_bounds:
  assumes "0 < x"
  shows "2 powi \<lfloor>log 2 x\<rfloor> \<le> x" and "x < 2 powi (\<lfloor>log 2 x\<rfloor> + 1)"
  using floor_log2_powi [OF assms, of "\<lfloor>log 2 x\<rfloor>"] by simp_all

lemma fl_0: "fl p 0 = 0"
  by (simp add: fl_def)

lemma fl_eval:
  assumes "0 < x" and "2 powi e \<le> x" and "x < 2 powi (e + 1)"
  shows "fl p x = of_int (round_even (x / 2 powi (e - int p + 1))) * 2 powi (e - int p + 1)"
proof -
  from assms have "\<lfloor>log 2 x\<rfloor> = e"
    by (simp add: floor_log2_powi)
  with assms(1) show ?thesis
    by (simp add: fl_def Let_def)
qed

lemma powi_add2: "(2::real) powi a * 2 powi b = 2 powi (a + b)"
  by (simp add: power_int_add)

lemma powi_add2': "a + b = c \<Longrightarrow> (2::real) powi a * 2 powi b = 2 powi c"
  by (simp only: powi_add2)

lemma powi_less2:
  assumes "(2::real) powi a < 2 powi b"
  shows "a < b"
proof (rule ccontr)
  assume "\<not> a < b"
  then have "(2::real) powi b \<le> 2 powi a"
    by (intro power_int_increasing) simp_all
  with assms show False
    by simp
qed

lemma fl_abs_error:
  assumes "0 < x"
  shows "\<bar>fl p x - x\<bar> \<le> 2 powi (\<lfloor>log 2 x\<rfloor> - int p)"
proof -
  let ?e = "\<lfloor>log 2 x\<rfloor>"
  let ?q = "(2::real) powi (?e - int p + 1)"
  have q: "0 < ?q"
    by simp
  have "\<bar>of_int (round_even (x / ?q)) - x / ?q\<bar> \<le> 1 / 2"
    by (rule round_even_error)
  then have "\<bar>of_int (round_even (x / ?q)) - x / ?q\<bar> * ?q \<le> 1 / 2 * ?q"
    using q by (intro mult_right_mono) simp_all
  moreover have "\<bar>of_int (round_even (x / ?q)) - x / ?q\<bar> * ?q =
                 \<bar>of_int (round_even (x / ?q)) * ?q - x\<bar>"
  proof -
    have "\<bar>of_int (round_even (x / ?q)) - x / ?q\<bar> * ?q =
          \<bar>(of_int (round_even (x / ?q)) - x / ?q) * ?q\<bar>"
      using q by (simp only: abs_mult abs_of_pos)
    also have "(of_int (round_even (x / ?q)) - x / ?q) * ?q = of_int (round_even (x / ?q)) * ?q - x"
      using q by (simp add: left_diff_distrib)
    finally show ?thesis .
  qed
  moreover have "1 / 2 * ?q = 2 powi (?e - int p)"
    by (simp add: power_int_add)
  ultimately show ?thesis
    using assms by (simp add: fl_def Let_def)
qed

lemma fl_rel_error:
  assumes "0 \<le> x"
  shows "\<bar>fl p x - x\<bar> \<le> x / 2 ^ p"
proof (cases "x = 0")
  case True
  then show ?thesis by (simp add: fl_0)
next
  case False
  with assms have x: "0 < x" by simp
  let ?e = "\<lfloor>log 2 x\<rfloor>"
  have "(2::real) powi (?e - int p) = 2 powi ?e / 2 ^ p"
    by (simp add: power_int_diff)
  also have "\<dots> \<le> x / 2 ^ p"
    using expo_bounds(1) [OF x] by (simp add: divide_right_mono)
  finally show ?thesis
    using fl_abs_error [OF x, of p] by linarith
qed

lemma fl_lower:
  assumes "0 < x" and "1 \<le> p"
  shows "2 powi \<lfloor>log 2 x\<rfloor> \<le> fl p x"
proof -
  let ?e = "\<lfloor>log 2 x\<rfloor>"
  let ?q = "(2::real) powi (?e - int p + 1)"
  have q: "0 < ?q"
    by simp
  have e: "(2::real) powi ?e = 2 ^ (p - 1) * ?q"
  proof -
    have "(2::real) ^ (p - 1) = 2 powi (int p - 1)"
      using assms(2) by (simp add: power_int_def nat_diff_distrib')
    moreover have "(2::real) powi (int p - 1) * ?q = 2 powi ?e"
      by (rule powi_add2') simp
    ultimately show ?thesis
      by simp
  qed
  from expo_bounds(1) [OF assms(1)] have "2 ^ (p - 1) * ?q \<le> x"
    by (simp only: e)
  then have "real_of_int (2 ^ (p - 1)) \<le> x / ?q"
    using q by (simp add: pos_le_divide_eq)
  then have "2 ^ (p - 1) \<le> round_even (x / ?q)"
    by (rule round_even_ge)
  then have "real_of_int (2 ^ (p - 1)) \<le> real_of_int (round_even (x / ?q))"
    by (simp only: of_int_le_iff)
  then have "real_of_int (2 ^ (p - 1)) * ?q \<le> real_of_int (round_even (x / ?q)) * ?q"
    using q by (intro mult_right_mono) simp_all
  with assms(1) show ?thesis
    by (simp add: fl_def Let_def e)
qed

lemma fl_upper:
  assumes "0 < x"
  shows "fl p x \<le> 2 powi (\<lfloor>log 2 x\<rfloor> + 1)"
proof -
  let ?e = "\<lfloor>log 2 x\<rfloor>"
  let ?q = "(2::real) powi (?e - int p + 1)"
  have q: "0 < ?q"
    by simp
  have e: "(2::real) powi (?e + 1) = 2 ^ p * ?q"
  proof -
    have "(2::real) ^ p = 2 powi (int p)"
      by simp
    moreover have "(2::real) powi (int p) * ?q = 2 powi (?e + 1)"
      by (rule powi_add2') simp
    ultimately show ?thesis
      by simp
  qed
  from expo_bounds(2) [OF assms(1)] have "x \<le> 2 ^ p * ?q"
    by (simp only: e)
  then have "x / ?q \<le> real_of_int (2 ^ p)"
    using q by (simp add: pos_divide_le_eq)
  then have "round_even (x / ?q) \<le> 2 ^ p"
    by (rule round_even_le)
  then have "real_of_int (round_even (x / ?q)) \<le> real_of_int (2 ^ p)"
    by (simp only: of_int_le_iff)
  then have "real_of_int (round_even (x / ?q)) * ?q \<le> real_of_int (2 ^ p) * ?q"
    using q by (intro mult_right_mono) simp_all
  with assms(1) show ?thesis
    by (simp add: fl_def Let_def e)
qed

lemma fl_nonneg:
  assumes "0 \<le> x"
  shows "0 \<le> fl p x"
proof (cases "x = 0")
  case True
  then show ?thesis by (simp add: fl_0)
next
  case False
  with assms have x: "0 < x" by simp
  have "0 \<le> round_even (x / 2 powi (\<lfloor>log 2 x\<rfloor> - int p + 1))"
    using x by (intro round_even_ge) simp
  with x show ?thesis
    by (simp add: fl_def Let_def)
qed

lemma fl_mono:
  assumes "1 \<le> p" and "0 \<le> x" and "x \<le> y"
  shows "fl p x \<le> fl p y"
proof (cases "x = 0")
  case True
  with assms show ?thesis
    by (simp add: fl_0 fl_nonneg)
next
  case False
  with assms have x: "0 < x" and y: "0 < y"
    by simp_all
  let ?ex = "\<lfloor>log 2 x\<rfloor>" and ?ey = "\<lfloor>log 2 y\<rfloor>"
  from x assms(3) have le: "?ex \<le> ?ey"
    by (intro floor_mono) simp
  show ?thesis
  proof (cases "?ex = ?ey")
    case True
    let ?q = "(2::real) powi (?ey - int p + 1)"
    have "x / ?q \<le> y / ?q"
      using assms(3) by (simp add: divide_right_mono)
    then have "round_even (x / ?q) \<le> round_even (y / ?q)"
      by (rule round_even_mono)
    then have "real_of_int (round_even (x / ?q)) * ?q \<le> real_of_int (round_even (y / ?q)) * ?q"
      by (intro mult_right_mono) simp_all
    with x y True show ?thesis
      by (simp add: fl_def Let_def)
  next
    case False
    with le have "?ex + 1 \<le> ?ey"
      by simp
    then have "(2::real) powi (?ex + 1) \<le> 2 powi ?ey"
      by (intro power_int_increasing) simp_all
    with fl_upper [OF x, of p] fl_lower [OF y assms(1)] show ?thesis
      by linarith
  qed
qed

lemma fl_nat:
  assumes "n < 2 ^ p" and "1 \<le> p"
  shows "fl p (real n) = real n"
proof (cases "n = 0")
  case True
  then show ?thesis by (simp add: fl_0)
next
  case False
  then have x: "0 < real n" by simp
  let ?e = "\<lfloor>log 2 (real n)\<rfloor>"
  let ?q = "(2::real) powi (?e - int p + 1)"
  from expo_bounds(1) [OF x] assms(1) have "(2::real) powi ?e < 2 powi (int p)"
    by (simp add: order_le_less_trans)
  then have "?e < int p"
    by (rule powi_less2)
  then have k: "0 \<le> int p - 1 - ?e"
    by simp
  have "real n / ?q = real n * 2 powi (int p - 1 - ?e)"
    by (simp add: power_int_diff field_simps power_int_add)
  also have "\<dots> = real_of_int (int n * 2 ^ nat (int p - 1 - ?e))"
    using k by (simp add: power_int_def)
  finally have "round_even (real n / ?q) = int n * 2 ^ nat (int p - 1 - ?e)"
    by (simp only: round_even_int)
  then have "real_of_int (round_even (real n / ?q)) * ?q =
             real n * 2 powi (int p - 1 - ?e) * ?q"
    using k by (simp add: power_int_def)
  also have "\<dots> = real n * (2 powi (int p - 1 - ?e) * ?q)"
    by simp
  also have "2 powi (int p - 1 - ?e) * ?q = (2::real) powi 0"
    by (rule powi_add2') simp
  also have "real n * 2 powi 0 = real n"
    by simp
  finally show ?thesis
    using x by (simp add: fl_def Let_def)
qed

section \<open>The loop body evaluated on particular colours\<close>

lemma ev_1: "fl 53 0.299 = 5386305154335113 / 18014398509481984"
  by (subst fl_eval [where e = "-2"]) (simp_all add: round_even_def power_int_minus)

lemma ev_2: "fl 24 (5386305154335113 / 18014398509481984) = 10032775 / 33554432"
  by (subst fl_eval [where e = "-2"]) (simp_all add: round_even_def power_int_minus)

lemma ev_3: "py_float 24 0.299 = 10032775 / 33554432"
  by (simp only: py_float_def ev_1 ev_2)

lemma ev_4: "fl 53 0.587 = 2643612981266481 / 4503599627370496"
  by (subst fl_eval [where e = "-1"]) (simp_all add: round_even_def power_int_minus)

lemma ev_5: "fl 24 (2643612981266481 / 4503599627370496) = 4924113 / 8388608"
  by (subst fl_eval [where e = "-1"]) (simp_all add: round_even_def power_int_minus)

lemma ev_6: "py_float 24 0.587 = 4924113 / 8388608"
  by (simp only: py_float_def ev_4 ev_5)

lemma ev_7: "fl 53 0.114 = 8214565720323785 / 72057594037927936"
  by (subst fl_eval [where e = "-4"]) (simp_all add: round_even_def power_int_minus)

lemma ev_8: "fl 24 (8214565720323785 / 72057594037927936) = 15300821 / 134217728"
  by (subst fl_eval [where e = "-4"]) (simp_all add: round_even_def power_int_minus)

lemma ev_9: "py_float 24 0.114 = 15300821 / 134217728"
  by (simp only: py_float_def ev_7 ev_8)

lemma ev_10: "fmul 24 (10032775 / 33554432) 219 = 8582725 / 131072"
  by (simp only: fmul_def) (subst fl_eval [where e = "6"], simp_all add: round_even_def power_int_minus)

lemma ev_11: "fmul 24 (4924113 / 8388608) 219 = 4212425 / 32768"
  by (simp only: fmul_def) (subst fl_eval [where e = "7"], simp_all add: round_even_def power_int_minus)

lemma ev_12: "fmul 24 (15300821 / 134217728) 219 = 6544687 / 262144"
  by (simp only: fmul_def) (subst fl_eval [where e = "4"], simp_all add: round_even_def power_int_minus)

lemma ev_13: "fadd 24 (8582725 / 131072) (4212425 / 32768) = 3179053 / 16384"
  by (simp only: fadd_def) (subst fl_eval [where e = "7"], simp_all add: round_even_def power_int_minus)

lemma ev_14: "fadd 24 (3179053 / 16384) (6544687 / 262144) = 219"
  by (simp only: fadd_def) (subst fl_eval [where e = "7"], simp_all add: round_even_def power_int_minus)

lemma ev_15: "brightness_fp 24 219 219 219 = 219"
  by (simp only: brightness_fp_def ev_3 ev_6 ev_9 ev_10 ev_11 ev_12 ev_13 ev_14)

lemma ev_16: "fsub 24 219 195 = 24"
  by (simp only: fsub_def) (subst fl_eval [where e = "4"], simp_all add: round_even_def power_int_minus)

lemma ev_17: "fdiv 24 24 40 = 5033165 / 8388608"
  by (simp only: fdiv_def) (subst fl_eval [where e = "-1"], simp_all add: round_even_def power_int_minus)

lemma ev_18: "fsub 24 1 (5033165 / 8388608) = 3355443 / 8388608"
  by (simp only: fsub_def) (subst fl_eval [where e = "-2"], simp_all add: round_even_def power_int_minus)

lemma ev_19: "fmul 24 255 (3355443 / 8388608) = 13369343 / 131072"
  by (simp only: fmul_def) (subst fl_eval [where e = "6"], simp_all add: round_even_def power_int_minus)

lemma ev_20: "fl 24 (13369343 / 131072) = 13369343 / 131072"
  by (subst fl_eval [where e = "6"]) (simp_all add: round_even_def power_int_minus)

lemma ev_24: "fmul 24 (10032775 / 33554432) 226 = 8857059 / 131072"
  by (simp only: fmul_def) (subst fl_eval [where e = "6"], simp_all add: round_even_def power_int_minus)

lemma ev_25: "fmul 24 (4924113 / 8388608) 202 = 3885433 / 32768"
  by (simp only: fmul_def) (subst fl_eval [where e = "6"], simp_all add: round_even_def power_int_minus)

lemma ev_26: "fmul 24 (15300821 / 134217728) 218 = 13029605 / 524288"
  by (simp only: fmul_def) (subst fl_eval [where e = "4"], simp_all add: round_even_def power_int_minus)

lemma ev_27: "fadd 24 (8857059 / 131072) (3885433 / 32768) = 3049849 / 16384"
  by (simp only: fadd_def) (subst fl_eval [where e = "7"], simp_all add: round_even_def power_int_minus)

lemma ev_28: "fadd 24 (3049849 / 16384) (13029605 / 524288) = 13828097 / 65536"
  by (simp only: fadd_def) (subst fl_eval [where e = "7"], simp_all add: round_even_def power_int_minus)

lemma ev_29: "brightness_fp 24 226 202 218 = 13828097 / 65536"
  by (simp only: brightness_fp_def ev_3 ev_6 ev_9 ev_24 ev_25 ev_26 ev_27 ev_28)

lemma ev_30: "fsub 24 (13828097 / 65536) 195 = 1048577 / 65536"
  by (simp only: fsub_def) (subst fl_eval [where e = "4"], simp_all add: round_even_def power_int_minus)

lemma ev_31: "fdiv 24 (1048577 / 65536) 40 = 6710893 / 16777216"
  by (simp only: fdiv_def) (subst fl_eval [where e = "-2"], simp_all add: round_even_def power_int_minus)

lemma ev_35: "fmul 24 (10032775 / 33554432) 196 = 15362687 / 262144"
  by (simp only: fmul_def) (subst fl_eval [where e = "5"], simp_all add: round_even_def power_int_minus)

lemma ev_36: "fmul 24 (4924113 / 8388608) 220 = 8463319 / 65536"
  by (simp only: fmul_def) (subst fl_eval [where e = "7"], simp_all add: round_even_def power_int_minus)

lemma ev_37: "fmul 24 (15300821 / 134217728) 204 = 6096421 / 262144"
  by (simp only: fmul_def) (subst fl_eval [where e = "4"], simp_all add: round_even_def power_int_minus)

lemma ev_38: "fadd 24 (15362687 / 262144) (8463319 / 65536) = 12303991 / 65536"
  by (simp only: fadd_def) (subst fl_eval [where e = "7"], simp_all add: round_even_def power_int_minus)

lemma ev_39: "fadd 24 (12303991 / 65536) (6096421 / 262144) = 211"
  by (simp only: fadd_def) (subst fl_eval [where e = "7"], simp_all add: round_even_def power_int_minus)

lemma ev_40: "brightness_fp 24 196 220 204 = 211"
  by (simp only: brightness_fp_def ev_3 ev_6 ev_9 ev_35 ev_36 ev_37 ev_38 ev_39)

lemma ev_41: "fsub 24 211 195 = 16"
  by (simp only: fsub_def) (subst fl_eval [where e = "4"], simp_all add: round_even_def power_int_minus)

lemma ev_42: "fdiv 24 16 40 = 13421773 / 33554432"
  by (simp only: fdiv_def) (subst fl_eval [where e = "-2"], simp_all add: round_even_def power_int_minus)

lemma ev_43: "fl 53 (5386305154335113 / 18014398509481984) = 5386305154335113 / 18014398509481984"
  by (subst fl_eval [where e = "-2"]) (simp_all add: round_even_def power_int_minus)

lemma ev_44: "py_float 53 0.299 = 5386305154335113 / 18014398509481984"
  by (simp only: py_float_def ev_1 ev_43)

lemma ev_45: "fl 53 (2643612981266481 / 4503599627370496) = 2643612981266481 / 4503599627370496"
  by (subst fl_eval [where e = "-1"]) (simp_all add: round_even_def power_int_minus)

lemma ev_46: "py_float 53 0.587 = 2643612981266481 / 4503599627370496"
  by (simp only: py_float_def ev_4 ev_45)

lemma ev_47: "fl 53 (8214565720323785 / 72057594037927936) = 8214565720323785 / 72057594037927936"
  by (subst fl_eval [where e = "-4"]) (simp_all add: round_even_def power_int_minus)

lemma ev_48: "py_float 53 0.114 = 8214565720323785 / 72057594037927936"
  by (simp only: py_float_def ev_7 ev_47)

lemma ev_49: "fmul 53 (5386305154335113 / 18014398509481984) 195 = 8205699258557399 / 140737488355328"
  by (simp only: fmul_def) (subst fl_eval [where e = "5"], simp_all add: round_even_def power_int_minus)

lemma ev_50: "fmul 53 (2643612981266481 / 4503599627370496) 195 = 8054758302296309 / 70368744177664"
  by (simp only: fmul_def) (subst fl_eval [where e = "6"], simp_all add: round_even_def power_int_minus)

lemma ev_51: "fmul 53 (8214565720323785 / 72057594037927936) 195 = 6257188732277883 / 281474976710656"
  by (simp only: fmul_def) (subst fl_eval [where e = "4"], simp_all add: round_even_def power_int_minus)

lemma ev_52: "fadd 53 (8205699258557399 / 140737488355328) (8054758302296309 / 70368744177664) = 379925247861719 / 2199023255552"
  by (simp only: fadd_def) (subst fl_eval [where e = "7"], simp_all add: round_even_def power_int_minus)

lemma ev_53: "fadd 53 (379925247861719 / 2199023255552) (6257188732277883 / 281474976710656) = 6860952557322239 / 35184372088832"
  by (simp only: fadd_def) (subst fl_eval [where e = "7"], simp_all add: round_even_def power_int_minus)

lemma ev_54: "brightness_fp 53 195 195 195 = 6860952557322239 / 35184372088832"
  by (simp only: brightness_fp_def ev_44 ev_46 ev_48 ev_49 ev_50 ev_51 ev_52 ev_53)

lemma ev_58: "fmul 53 (5386305154335113 / 18014398509481984) 226 = 4755097519061467 / 70368744177664"
  by (simp only: fmul_def) (subst fl_eval [where e = "6"], simp_all add: round_even_def power_int_minus)

lemma ev_59: "fmul 53 (2643612981266481 / 4503599627370496) 202 = 8343903472122331 / 70368744177664"
  by (simp only: fmul_def) (subst fl_eval [where e = "6"], simp_all add: round_even_def power_int_minus)

lemma ev_60: "fmul 53 (8214565720323785 / 72057594037927936) 218 = 6995216121213223 / 281474976710656"
  by (simp only: fmul_def) (subst fl_eval [where e = "4"], simp_all add: round_even_def power_int_minus)

lemma ev_61: "fadd 53 (4755097519061467 / 70368744177664) (8343903472122331 / 70368744177664) = 6549500495591899 / 35184372088832"
  by (simp only: fadd_def) (subst fl_eval [where e = "7"], simp_all add: round_even_def power_int_minus)

lemma ev_62: "fadd 53 (6549500495591899 / 35184372088832) (6995216121213223 / 281474976710656) = 211"
  by (simp only: fadd_def) (subst fl_eval [where e = "7"], simp_all add: round_even_def power_int_minus)

lemma ev_63: "brightness_fp 53 226 202 218 = 211"
  by (simp only: brightness_fp_def ev_44 ev_46 ev_48 ev_58 ev_59 ev_60 ev_61 ev_62)

lemma ev_64: "fsub 53 211 195 = 16"
  by (simp only: fsub_def) (subst fl_eval [where e = "4"], simp_all add: round_even_def power_int_minus)

lemma ev_65: "fdiv 53 16 40 = 3602879701896397 / 9007199254740992"
  by (simp only: fdiv_def) (subst fl_eval [where e = "-2"], simp_all add: round_even_def power_int_minus)

lemma ev_69: "fmul 53 (5386305154335113 / 18014398509481984) 196 = 4123889883787821 / 70368744177664"
  by (simp only: fmul_def) (subst fl_eval [where e = "5"], simp_all add: round_even_def power_int_minus)

lemma ev_70: "fmul 53 (2643612981266481 / 4503599627370496) 220 = 1135927452887941 / 8796093022208"
  by (simp only: fmul_def) (subst fl_eval [where e = "7"], simp_all add: round_even_def power_int_minus)

lemma ev_71: "fmul 53 (8214565720323785 / 72057594037927936) 204 = 818247757297877 / 35184372088832"
  by (simp only: fmul_def) (subst fl_eval [where e = "4"], simp_all add: round_even_def power_int_minus)

lemma ev_72: "fadd 53 (4123889883787821 / 70368744177664) (1135927452887941 / 8796093022208) = 3302827376722837 / 17592186044416"
  by (simp only: fadd_def) (subst fl_eval [where e = "7"], simp_all add: round_even_def power_int_minus)

lemma ev_73: "fadd 53 (3302827376722837 / 17592186044416) (818247757297877 / 35184372088832) = 7423902510743551 / 35184372088832"
  by (simp only: fadd_def) (subst fl_eval [where e = "7"], simp_all add: round_even_def power_int_minus)

lemma ev_74: "brightness_fp 53 196 220 204 = 7423902510743551 / 35184372088832"
  by (simp only: brightness_fp_def ev_44 ev_46 ev_48 ev_69 ev_70 ev_71 ev_72 ev_73)

lemma ev_75: "fsub 53 (7423902510743551 / 35184372088832) 195 = 562949953421311 / 35184372088832"
  by (simp only: fsub_def) (subst fl_eval [where e = "3"], simp_all add: round_even_def power_int_minus)

lemma ev_76: "fdiv 53 (562949953421311 / 35184372088832) 40 = 7205759403792781 / 18014398509481984"
  by (simp only: fdiv_def) (subst fl_eval [where e = "-2"], simp_all add: round_even_def power_int_minus)

section \<open>Rounding error of the brightness\<close>

lemma fl_lohi:
  assumes "24 \<le> p" and "0 \<le> x"
  shows "x * (1 - 1 / 2 ^ 24) \<le> fl p x" and "fl p x \<le> x * (1 + 1 / 2 ^ 24)"
proof -
  have "(2::real) ^ 24 \<le> 2 ^ p"
    using assms(1) by (intro power_increasing) simp_all
  then have "x / 2 ^ p \<le> x / 2 ^ 24"
    using assms(2) by (intro divide_left_mono) simp_all
  with fl_rel_error [OF assms(2), of p] have "\<bar>fl p x - x\<bar> \<le> x / 2 ^ 24"
    by linarith
  then have "x - x / 2 ^ 24 \<le> fl p x" and "fl p x \<le> x + x / 2 ^ 24"
    by linarith+
  then show "x * (1 - 1 / 2 ^ 24) \<le> fl p x" and "fl p x \<le> x * (1 + 1 / 2 ^ 24)"
    by (simp_all add: algebra_simps)
qed

lemma fl_scale:
  assumes "24 \<le> p" and "0 \<le> a"
    and "a * (1 - 1 / 2 ^ 24) ^ k \<le> x" and "x \<le> a * (1 + 1 / 2 ^ 24) ^ k"
  shows "a * (1 - 1 / 2 ^ 24) ^ Suc k \<le> fl p x \<and> fl p x \<le> a * (1 + 1 / 2 ^ 24) ^ Suc k"
proof -
  let ?lo = "1 - 1 / 2 ^ 24 :: real" and ?hi = "1 + 1 / 2 ^ 24 :: real"
  have lo: "0 \<le> ?lo" and hi: "0 \<le> ?hi"
    by simp_all
  from assms(2) lo have "0 \<le> a * ?lo ^ k"
    by (intro mult_nonneg_nonneg zero_le_power)
  with assms(3) have x: "0 \<le> x"
    by linarith
  have "a * ?lo ^ k * ?lo \<le> x * ?lo"
    using assms(3) lo by (rule mult_right_mono)
  moreover have "x * ?hi \<le> a * ?hi ^ k * ?hi"
    using assms(4) hi by (rule mult_right_mono)
  ultimately show ?thesis
    using fl_lohi [OF assms(1) x] by (simp add: mult.assoc)
qed

lemma scale_weaken:
  assumes "0 \<le> a" and "k \<le> n"
    and "a * (1 - 1 / 2 ^ 24) ^ k \<le> x" and "x \<le> a * (1 + 1 / 2 ^ 24) ^ k"
  shows "a * (1 - 1 / 2 ^ 24) ^ n \<le> (x::real) \<and> x \<le> a * (1 + 1 / 2 ^ 24) ^ n"
proof -
  have "(1 - 1 / 2 ^ 24 :: real) ^ n \<le> (1 - 1 / 2 ^ 24) ^ k"
    using assms(2) by (intro power_decreasing) simp_all
  then have "a * (1 - 1 / 2 ^ 24) ^ n \<le> a * (1 - 1 / 2 ^ 24) ^ k"
    using assms(1) by (rule mult_left_mono)
  moreover have "(1 + 1 / 2 ^ 24 :: real) ^ k \<le> (1 + 1 / 2 ^ 24) ^ n"
    using assms(2) by (intro power_increasing) simp_all
  then have "a * (1 + 1 / 2 ^ 24) ^ k \<le> a * (1 + 1 / 2 ^ 24) ^ n"
    using assms(1) by (rule mult_left_mono)
  ultimately show ?thesis
    using assms(3,4) by linarith
qed

text \<open>A constant times a sample: three roundings.\<close>

lemma term_bounds:
  assumes "24 \<le> p" and "0 \<le> c" and "0 \<le> v"
  shows "c * v * (1 - 1 / 2 ^ 24) ^ 3 \<le> fmul p (py_float p c) v \<and>
         fmul p (py_float p c) v \<le> c * v * (1 + 1 / 2 ^ 24) ^ 3"
proof -
  let ?lo = "1 - 1 / 2 ^ 24 :: real" and ?hi = "1 + 1 / 2 ^ 24 :: real"
  have p53: "24 \<le> (53::nat)"
    by simp
  have c1: "c * ?lo ^ Suc 0 \<le> fl 53 c \<and> fl 53 c \<le> c * ?hi ^ Suc 0"
    using fl_scale [OF p53 assms(2), of 0 c] by simp
  have c2: "c * ?lo ^ Suc (Suc 0) \<le> py_float p c \<and> py_float p c \<le> c * ?hi ^ Suc (Suc 0)"
    unfolding py_float_def using c1 by (intro fl_scale assms) simp_all
  have "c * ?lo ^ Suc (Suc 0) * v \<le> py_float p c * v"
    using c2 assms(3) by (intro mult_right_mono) simp_all
  moreover have "py_float p c * v \<le> c * ?hi ^ Suc (Suc 0) * v"
    using c2 assms(3) by (intro mult_right_mono) simp_all
  ultimately have "c * v * ?lo ^ Suc (Suc 0) \<le> py_float p c * v \<and>
                   py_float p c * v \<le> c * v * ?hi ^ Suc (Suc 0)"
    by (simp add: mult_ac)
  then have "c * v * ?lo ^ Suc (Suc (Suc 0)) \<le> fl p (py_float p c * v) \<and>
             fl p (py_float p c * v) \<le> c * v * ?hi ^ Suc (Suc (Suc 0))"
    using assms by (intro fl_scale) simp_all
  then show ?thesis
    by (simp add: fmul_def numeral_3_eq_3)
qed

lemma sum_bounds:
  assumes "24 \<le> p" and "0 \<le> a" and "0 \<le> b"
    and "a * (1 - 1 / 2 ^ 24) ^ k \<le> x \<and> x \<le> a * (1 + 1 / 2 ^ 24) ^ k"
    and "b * (1 - 1 / 2 ^ 24) ^ k \<le> y \<and> y \<le> b * (1 + 1 / 2 ^ 24) ^ k"
  shows "(a + b) * (1 - 1 / 2 ^ 24) ^ Suc k \<le> fadd p x y \<and>
         fadd p x y \<le> (a + b) * (1 + 1 / 2 ^ 24) ^ Suc k"
proof -
  from assms(2,3) have ab: "0 \<le> a + b"
    by simp
  from assms(4,5) have "(a + b) * (1 - 1 / 2 ^ 24) ^ k \<le> x + y"
    and "x + y \<le> (a + b) * (1 + 1 / 2 ^ 24) ^ k"
    by (simp_all only: distrib_right add_mono)
  then show ?thesis
    unfolding fadd_def by (rule fl_scale [OF assms(1) ab])
qed

lemma hi5: "(1 + 1 / 2 ^ 24 :: real) ^ 5 \<le> 1 + 1 / (255 * 2 ^ 13)"
  by (simp add: power_divide)

lemma lo5: "1 - 1 / (255 * 2 ^ 13) \<le> (1 - 1 / 2 ^ 24 :: real) ^ 5"
  by (simp add: power_divide)

lemma brightness_bounds:
  assumes "24 \<le> p" and "0 \<le> r" and "0 \<le> g" and "0 \<le> b"
  shows "luminance r g b * (1 - 1 / 2 ^ 24) ^ 5 \<le> brightness_fp p r g b \<and>
         brightness_fp p r g b \<le> luminance r g b * (1 + 1 / 2 ^ 24) ^ 5"
proof -
  let ?t1 = "fmul p (py_float p 0.299) r" and ?t2 = "fmul p (py_float p 0.587) g"
    and ?t3 = "fmul p (py_float p 0.114) b"
  have c: "0 \<le> (0.299::real)" "0 \<le> (0.587::real)" "0 \<le> (0.114::real)"
    by simp_all
  note t1 = term_bounds [OF assms(1) c(1) assms(2)]
    and t2 = term_bounds [OF assms(1) c(2) assms(3)]
    and t3 = term_bounds [OF assms(1) c(3) assms(4)]
  have n: "0 \<le> 0.299 * r" "0 \<le> 0.587 * g" "0 \<le> 0.114 * b"
    using assms by simp_all
  note s1 = sum_bounds [OF assms(1) n(1) n(2) t1 t2]
  have k: "(3::nat) \<le> Suc 3"
    by simp
  note t3' = scale_weaken [OF n(3) k t3 [THEN conjunct1] t3 [THEN conjunct2]]
  have n2: "0 \<le> 0.299 * r + 0.587 * g"
    using n by simp
  note s2 = sum_bounds [OF assms(1) n2 n(3) s1 t3']
  have five: "Suc (Suc 3) = 5"
    by simp
  from s2 show ?thesis
    by (simp only: brightness_fp_def luminance_def five)
qed

lemma brightness_near:
  assumes "24 \<le> p" and "0 \<le> r" and "0 \<le> g" and "0 \<le> b"
    and "r \<le> 255" and "g \<le> 255" and "b \<le> 255"
  shows "luminance r g b - 1 / 2 ^ 13 \<le> brightness_fp p r g b"
    and "brightness_fp p r g b \<le> luminance r g b + 1 / 2 ^ 13"
proof -
  let ?L = "luminance r g b" and ?B = "brightness_fp p r g b"
  from assms have L: "0 \<le> ?L" "?L \<le> 255"
    by (simp_all add: luminance_def)
  note B = brightness_bounds [OF assms(1-4)]
  have "?L * (1 + 1 / 2 ^ 24) ^ 5 \<le> ?L * (1 + 1 / (255 * 2 ^ 13))"
    using hi5 L(1) by (rule mult_left_mono)
  also have "\<dots> = ?L + ?L / (255 * 2 ^ 13)"
    by (simp add: algebra_simps)
  also have "\<dots> \<le> ?L + 1 / 2 ^ 13"
    using L by simp
  finally have up: "?B \<le> ?L + 1 / 2 ^ 13"
    using B by linarith
  have "?L - 1 / 2 ^ 13 \<le> ?L - ?L / (255 * 2 ^ 13)"
    using L by simp
  also have "\<dots> = ?L * (1 - 1 / (255 * 2 ^ 13))"
    by (simp add: algebra_simps)
  also have "\<dots> \<le> ?L * (1 - 1 / 2 ^ 24) ^ 5"
    using lo5 L(1) by (rule mult_left_mono)
  finally show "?L - 1 / 2 ^ 13 \<le> ?B"
    using B by linarith
  from up show "?B \<le> ?L + 1 / 2 ^ 13" .
qed

section \<open>The floating-point compositor on white and on red\<close>

lemma composited_fp_eq:
  "rectangular img \<Longrightarrow> composited_fp p img = map (map (composite_pixel8_fp p)) img"
  by (simp add: composited_fp_def composite_result_fp np_array_map to_uint8_map
      composite_pixel8_fp_def o_def)

lemma composited_fp_rect: "rectangular img \<Longrightarrow> rectangular (composited_fp p img)"
  by (simp add: composited_fp_eq rectangular_map)

lemma composited_fp_size: "rectangular img \<Longrightarrow> img_size (composited_fp p img) = img_size img"
  by (simp add: composited_fp_eq img_size_map)

lemma fl_1: "1 \<le> p \<Longrightarrow> fl p 1 = 1"
  using fl_nat [of 1 p] one_less_power [of "2::nat" p] by simp

lemma classify_fp_unfold:
  "classify_fp p r g b =
     (if 195 \<le> brightness_fp p r g b \<and> np_std [r, g, b] < 15
      then Some (np_clip (fdiv p (fsub p (brightness_fp p r g b) 195) 40) 0 1) else None)"
  by (simp add: classify_fp_def brightness_fp_def Let_def white_threshold_def gradient_range_def)

lemma std_grey: "np_std [v, v, v] = 0"
  by (simp add: np_std_def)

lemma white_classify:
  assumes "24 \<le> p"
  shows "classify_fp p 255 255 255 = Some 1"
proof -
  let ?B = "brightness_fp p 255 255 255"
  have p1: "1 \<le> p"
    using assms by simp
  have L: "luminance 255 255 255 = 255"
    by (simp add: luminance_def)
  from brightness_near(1) [OF assms, of 255 255 255] have B: "254 \<le> ?B"
    by (simp add: L)
  then have b: "195 \<le> ?B"
    by simp
  have "fl p 59 \<le> fl p (?B - 195)"
    using B by (intro fl_mono p1) simp_all
  moreover have "(2::nat) ^ 24 \<le> 2 ^ p"
    using assms by (intro power_increasing) simp_all
  then have "fl p 59 = 59"
    using fl_nat [of 59 p] p1 by simp
  ultimately have d: "59 \<le> fl p (?B - 195)"
    by simp
  have "fl p 1 \<le> fl p (fl p (?B - 195) / 40)"
    using d by (intro fl_mono p1) simp_all
  then have "1 \<le> fl p (fl p (?B - 195) / 40)"
    by (simp only: fl_1 [OF p1])
  then have "np_clip (fl p (fl p (?B - 195) / 40)) 0 1 = 1"
    by (simp add: np_clip_def)
  with b show ?thesis
    by (simp add: classify_fp_unfold std_grey fsub_def fdiv_def)
qed

lemma red_classify:
  assumes "24 \<le> p"
  shows "classify_fp p 200 30 30 = None"
proof -
  have L: "luminance 200 30 30 = 80.83"
    by (simp add: luminance_def)
  from brightness_near(2) [OF assms, of 200 30 30] have "brightness_fp p 200 30 30 < 195"
    by (simp add: L)
  then show ?thesis
    by (simp add: classify_fp_unfold)
qed

lemma white_pixel_fp:
  "24 \<le> p \<Longrightarrow> composite_pixel8_fp p (255, 255, 255, a) = (255, 255, 255, 0)"
  by (simp add: composite_pixel8_fp_def composite_pixel_fp_def float_pixel_def white_classify
      fsub_def fmul_def fl_0 uint8_pixel_def astype_uint8_def py_int_def np_clip_def)

lemma red_pixel_fp:
  "24 \<le> p \<Longrightarrow> composite_pixel8_fp p (200, 30, 30, a) = (200, 30, 30, 255)"
  by (simp add: composite_pixel8_fp_def composite_pixel_fp_def float_pixel_def red_classify
      uint8_pixel_def astype_uint8_def py_int_def np_clip_def)

section \<open>The call of the resampler\<close>

lemma resample_size:
  "1 \<le> th \<Longrightarrow> img_size (resample lanczos im (tw, th)) = (nat tw, nat th)"
  unfolding resample_def prod.case by (rule grid_size) simp

lemma pil_filter_size: "0 < img_height im \<Longrightarrow> img_size (pil_filter sharpen im) = img_size im"
  unfolding pil_filter_def img_size_def [of im] by (rule grid_size)

lemma replicate_rect: "rectangular (replicate h row)"
  by (cases h) (simp_all add: rectangular_def img_width_def list_all_iff)

lemma tall_column_rect: "rectangular tall_column"
  unfolding tall_column_def by (rule replicate_rect)

lemma tall_column_size: "img_size tall_column = (1, 81)"
  using replicate_size [of 81 1 "(200, 30, 30, 255) :: uint8 pixel"] by (simp add: tall_column_def)

lemma red_column_size: "img_size red_column = (1, 3)"
  by (simp add: red_column_def img_size_def img_width_def img_height_def)

lemma resize_and_sharpen_Inr:
  assumes "img_size im = (w, h)" and "0 < h" and "h \<le> 80 * w"
  shows "resize_and_sharpen lanczos sharpen im =
           Inr (pil_filter sharpen (resample lanczos im (int ((80 * w) div h), 80)))"
proof -
  from assms(2,3) have "1 \<le> (80 * w) div h"
    by (simp add: Suc_le_eq div_greater_zero_iff)
  then show ?thesis
    using assms(1,2) by (simp add: resize_and_sharpen_def target_dims_floor pil_resize_def)
qed

lemma resize_and_sharpen_ValueError:
  assumes "img_size im = (w, h)" and "80 * w < h"
  shows "resize_and_sharpen lanczos sharpen im = Inl ValueError"
  using assms by (simp add: resize_and_sharpen_def target_dims_floor pil_resize_def)

lemma output_size:
  "img_size (pil_filter sharpen (resample lanczos im (int tw, 80))) = (tw, 80)"
proof -
  have s: "img_size (resample lanczos im (int tw, 80)) = (tw, 80)"
    using resample_size [of 80 lanczos im "int tw"] by simp
  then have "0 < img_height (resample lanczos im (int tw, 80))"
    by (simp add: img_size_def)
  then show ?thesis
    by (simp add: pil_filter_size s)
qed

text \<open>
  C4, as stated with rounding to nearest, fails on a cropped buffer of width 1 and
  height 3, a column of three opaque red pixels: the code computes the width 26 and
  returns an image of 26 by 80, the rounded quotient is 27. On a column of 81 such
  pixels the rounded quotient is 1, the code computes 0 and the run ends in the
  ValueError of resize.
\<close>

theorem resampler_target_size_counterexample:
  "crop_to_content (composited_fp 24 red_column) = red_column \<and>
   img_size red_column = (1, 3) \<and>
   target_dims 1 3 = Inr (26, 80) \<and> spec_target_width 1 3 = 27 \<and>
   remove_background_hd 24 first_pixel same_pixel red_column =
     Inr (pil_filter same_pixel (resample first_pixel red_column (26, 80))) \<and>
   img_size (pil_filter same_pixel (resample first_pixel red_column (26, 80))) = (26, 80) \<and>
   crop_to_content (composited_fp 24 tall_column) = tall_column \<and>
   img_size tall_column = (1, 81) \<and> spec_target_width 1 81 = 1 \<and>
   remove_background_hd 24 first_pixel same_pixel tall_column = Inl ValueError"
proof -
  have r: "rectangular red_column"
    by (simp add: red_column_def rectangular_def img_width_def)
  have c: "composited_fp 24 red_column = red_column"
    by (simp add: composited_fp_eq r) (simp add: red_column_def red_pixel_fp)
  have k: "crop_to_content red_column = red_column"
    by code_simp
  note s = red_column_size
  have t: "target_dims 1 3 = Inr (26, 80)"
    by (simp add: target_dims_def true_div_def py_int_def target_height_def)
  have w: "spec_target_width 1 3 = 27"
    by (simp add: spec_target_width_def round_def)
  have o: "remove_background_hd 24 first_pixel same_pixel red_column =
      Inr (pil_filter same_pixel (resample first_pixel red_column (26, 80)))"
    using resize_and_sharpen_Inr [OF s, of first_pixel same_pixel]
    by (simp add: remove_background_hd_def crop_and_resize_def c k)
  have z: "img_size (pil_filter same_pixel (resample first_pixel red_column (26, 80))) = (26, 80)"
    using output_size [of same_pixel first_pixel red_column 26] by simp
  note r' = tall_column_rect
  have c': "composited_fp 24 tall_column = tall_column"
    by (simp add: composited_fp_eq r') (simp add: tall_column_def red_pixel_fp)
  note s' = tall_column_size
  have "getbbox tall_column = Some (0, 0, 1, 81)"
  proof (rule getbbox_solid [OF r'])
    fix x y
    assume "y < img_height tall_column" and "x < img_width tall_column"
    then show "alpha (tall_column ! y ! x) \<noteq> 0 \<longleftrightarrow> 0 \<le> x \<and> x < 1 \<and> 0 \<le> y \<and> y < 81"
      using s' by (simp add: img_size_def) (simp add: tall_column_def alpha_def)
  qed (use s' in \<open>simp_all add: img_size_def\<close>)
  moreover have "map (\<lambda>y. map (\<lambda>x. tall_column ! y ! x) [0..<1]) [0..<81] = tall_column"
    by (simp add: tall_column_def list_eq_iff_nth_eq del: upt_rec_numeral)
  ultimately have k': "crop_to_content tall_column = tall_column"
    using s' by (simp add: crop_to_content_def crop_inside [OF r'] img_size_def
        del: upt_rec_numeral)
  have w': "spec_target_width 1 81 = 1"
    by (simp add: spec_target_width_def round_def)
  have o': "remove_background_hd 24 first_pixel same_pixel tall_column = Inl ValueError"
    using resize_and_sharpen_ValueError [OF s', of first_pixel same_pixel]
    by (simp add: remove_background_hd_def crop_and_resize_def c' k')
  from c k s t w o z c' k' s' w' o' show ?thesis
    unfolding c c' by (intro conjI)
qed

text \<open>
  C4, amended. For a cropped buffer of positive height the target height is 80 and the
  target width is the quotient 80 * width / height truncated to an integer, not rounded.
  When that width is at least 1, that is when the height is at most 80 times the width,
  the run returns the sharpened resampling of the cropped buffer to exactly
  (target\_width, 80), an image of exactly this size. When it is 0, resize raises
  ValueError and nothing is resampled.
\<close>

theorem resampler_target_size:
  assumes "img_size cropped = (w, h)" and "0 < h"
  shows "target_dims w h = Inr (\<lfloor>80 * real w / real h\<rfloor>, 80) \<and>
         (h \<le> 80 * w \<longrightarrow>
            1 \<le> \<lfloor>80 * real w / real h\<rfloor> \<and>
            resize_and_sharpen lanczos sharpen cropped =
              Inr (pil_filter sharpen (resample lanczos cropped (\<lfloor>80 * real w / real h\<rfloor>, 80))) \<and>
            img_size (pil_filter sharpen (resample lanczos cropped (\<lfloor>80 * real w / real h\<rfloor>, 80))) =
              (nat \<lfloor>80 * real w / real h\<rfloor>, 80) \<and>
            img_size (resample lanczos cropped (\<lfloor>80 * real w / real h\<rfloor>, 80)) =
              (nat \<lfloor>80 * real w / real h\<rfloor>, 80)) \<and>
         (80 * w < h \<longrightarrow>
            \<lfloor>80 * real w / real h\<rfloor> = 0 \<and>
            resize_and_sharpen lanczos sharpen cropped = Inl ValueError)"
proof -
  have f: "\<lfloor>80 * real w / real h\<rfloor> = int ((80 * w) div h)"
    by (rule floor_80)
  have t: "target_dims w h = Inr (int ((80 * w) div h), 80)"
    using assms(2) by (rule target_dims_floor)
  have a: "1 \<le> int ((80 * w) div h)" if "h \<le> 80 * w"
    using that assms(2) by (simp add: Suc_le_eq div_greater_zero_iff)
  have b: "img_size (resample lanczos cropped (int ((80 * w) div h), 80)) = ((80 * w) div h, 80)"
    using resample_size [of 80 lanczos cropped "int ((80 * w) div h)"] by simp
  have z: "int ((80 * w) div h) = 0" if "80 * w < h"
    using that by simp
  show ?thesis
    unfolding f using t a b z
      resize_and_sharpen_Inr [OF assms, of lanczos sharpen]
      resize_and_sharpen_ValueError [OF assms(1), of lanczos sharpen]
      output_size [of sharpen lanczos cropped "(80 * w) div h"]
    by simp
qed

theorem resampler_target_size_witness:
  "img_size red_column = (1, 3) \<and> target_dims 1 3 = Inr (26, 80) \<and>
   resize_and_sharpen first_pixel same_pixel red_column =
     Inr (pil_filter same_pixel (resample first_pixel red_column (26, 80))) \<and>
   img_size (pil_filter same_pixel (resample first_pixel red_column (26, 80))) = (26, 80) \<and>
   img_size tall_column = (1, 81) \<and> target_dims 1 81 = Inr (0, 80) \<and>
   resize_and_sharpen first_pixel same_pixel tall_column = Inl ValueError"
proof -
  note s = red_column_size
  note s' = tall_column_size
  have f: "\<lfloor>80 * real 1 / real 3\<rfloor> = 26" "\<lfloor>80 * real 1 / real 81\<rfloor> = 0"
    by simp_all
  have h: "(0::nat) < 3" "(0::nat) < 81"
    by simp_all
  note a = resampler_target_size [OF s h(1), of first_pixel same_pixel, unfolded f]
    and b = resampler_target_size [OF s' h(2), of first_pixel same_pixel, unfolded f]
  from a b s s' show ?thesis
    by simp
qed

section \<open>Empty content\<close>

text \<open>
  C6. When the composited buffer has no pixel of nonzero alpha, getbbox returns None,
  the crop is skipped and the stage returns the composited buffer itself: the run is the
  resize stage applied to the uncropped composited buffer. The crop stage has no error
  of its own; the run returns the sharpened resampling of the composited buffer when its
  height is at most 80 times its width, and ends in the ValueError of resize otherwise.
\<close>

theorem empty_content_pass_through:
  assumes "rectangular img" and "img_size img = (w, h)" and "0 < h"
    and "output_img = composited_fp p img"
    and "\<forall>y<h. \<forall>x<w. alpha (output_img ! y ! x) = 0"
  shows "getbbox output_img = None \<and> crop_to_content output_img = output_img \<and>
         remove_background_hd p lanczos sharpen img =
           resize_and_sharpen lanczos sharpen output_img \<and>
         (h \<le> 80 * w \<longrightarrow>
            remove_background_hd p lanczos sharpen img =
              Inr (pil_filter sharpen (resample lanczos output_img (int ((80 * w) div h), 80)))) \<and>
         (80 * w < h \<longrightarrow> remove_background_hd p lanczos sharpen img = Inl ValueError)"
proof -
  have r: "rectangular output_img"
    unfolding assms(4) using assms(1) by (rule composited_fp_rect)
  have s: "img_size output_img = (w, h)"
    unfolding assms(4) using assms(1,2) by (simp add: composited_fp_size)
  then have "img_height output_img = h" and "img_width output_img = w"
    by (simp_all add: img_size_def)
  with assms(5) have n: "getbbox output_img = None"
    by (simp add: getbbox_None [OF r])
  then have c: "crop_to_content output_img = output_img"
    by (simp add: crop_to_content_def)
  have e: "remove_background_hd p lanczos sharpen img =
           resize_and_sharpen lanczos sharpen output_img"
    by (simp add: remove_background_hd_def crop_and_resize_def assms(4) [symmetric] c)
  from n c e show ?thesis
    using resize_and_sharpen_Inr [OF s assms(3), of lanczos sharpen]
      resize_and_sharpen_ValueError [OF s, of lanczos sharpen]
    by simp
qed

theorem empty_content_pass_through_witness:
  "rectangular white_dot \<and> img_size white_dot = (1, 1) \<and>
   composited_fp 24 white_dot = [[(255, 255, 255, 0)]] \<and>
   getbbox [[(255, 255, 255, 0)]] = None \<and>
   crop_to_content [[(255, 255, 255, 0)]] = [[(255, 255, 255, 0)]] \<and>
   remove_background_hd 24 first_pixel same_pixel white_dot =
     Inr (pil_filter same_pixel (resample first_pixel [[(255, 255, 255, 0)]] (80, 80)))"
proof -
  have r: "rectangular white_dot"
    by (simp add: white_dot_def rectangular_def img_width_def)
  have s: "img_size white_dot = (1, 1)"
    by (simp add: white_dot_def img_size_def img_width_def img_height_def)
  have c': "composited_fp 24 white_dot = [[(255, 255, 255, 0)]]"
    by (simp add: composited_fp_eq r) (simp add: white_dot_def white_pixel_fp)
  note c = c' [symmetric]
  have a: "\<forall>y<1. \<forall>x<1. alpha ([[(255, 255, 255, 0 :: uint8)]] ! y ! x) = 0"
    by (simp add: alpha_def)
  have h: "(0::nat) < 1"
    by simp
  note t = empty_content_pass_through [OF r s h c a, of first_pixel same_pixel]
  from t have g: "getbbox [[(255, 255, 255, 0)]] = None"
    by (rule conjunct1)
  from t have k: "crop_to_content [[(255, 255, 255, 0)]] = [[(255, 255, 255, 0)]]"
    by (rule conjunct2 [THEN conjunct1])
  from t [THEN conjunct2, THEN conjunct2, THEN conjunct2, THEN conjunct1]
  have o: "remove_background_hd 24 first_pixel same_pixel white_dot =
     Inr (pil_filter same_pixel (resample first_pixel [[(255, 255, 255, 0)]] (80, 80)))"
    by simp
  from r s c' g k o show ?thesis
    by (intro conjI)
qed

section \<open>The bordered rectangle in floating point\<close>









section \<open>The classifier in floating point\<close>

lemma eligible_fp_iff:
  "eligible_fp p r g b \<longleftrightarrow> 195 \<le> brightness_fp p r g b \<and> population_std r g b < 15"
  by (simp add: eligible_fp_def classify_fp_unfold np_std_3)

lemma alpha_factor_fp_eligible:
  "eligible_fp p r g b \<Longrightarrow>
   alpha_factor_fp p r g b = np_clip (fdiv p (fsub p (brightness_fp p r g b) 195) 40) 0 1"
  by (simp add: eligible_fp_def alpha_factor_fp_def classify_fp_unfold split: if_splits)

lemma alpha_factor_fp_not_eligible: "\<not> eligible_fp p r g b \<Longrightarrow> alpha_factor_fp p r g b = 0"
  by (simp add: eligible_fp_def alpha_factor_fp_def)

lemma alpha_factor_fp_range: "0 \<le> alpha_factor_fp p r g b \<and> alpha_factor_fp p r g b \<le> 1"
  by (cases "eligible_fp p r g b")
    (simp_all add: alpha_factor_fp_eligible alpha_factor_fp_not_eligible np_clip_nonneg np_clip_le_1)

text \<open>On integer samples a thousand times the luminance is an integer.\<close>

lemma luminance_nat:
  "luminance (real r) (real g) (real b) = real (299 * r + 587 * g + 114 * b) / 1000"
  by (simp add: luminance_def)

lemma luminance_step:
  assumes "luminance (real r1) (real g1) (real b1) < luminance (real r2) (real g2) (real b2)"
  shows "luminance (real r1) (real g1) (real b1) + 1 / 1000 \<le>
         luminance (real r2) (real g2) (real b2)"
proof -
  define m where "m = 299 * r1 + 587 * g1 + 114 * b1"
  define n where "n = 299 * r2 + 587 * g2 + 114 * b2"
  have L: "luminance (real r1) (real g1) (real b1) = real m / 1000"
    "luminance (real r2) (real g2) (real b2) = real n / 1000"
    unfolding m_def n_def by (rule luminance_nat)+
  from assms have "real m < real n"
    unfolding L by simp
  then have "m + 1 \<le> n"
    by simp
  then have "real (m + 1) \<le> real n"
    by (simp only: of_nat_le_iff)
  then show ?thesis
    unfolding L by simp
qed

lemma luminance_195: "luminance (real 195) (real 195) (real 195) = 195"
  by (simp add: luminance_def)

lemma luminance_above:
  "195 < luminance (real r) (real g) (real b) \<Longrightarrow>
   195 + 1 / 1000 \<le> luminance (real r) (real g) (real b)"
  using luminance_step [of 195 195 195 r g b] by (simp only: luminance_195)

lemma luminance_below:
  "luminance (real r) (real g) (real b) < 195 \<Longrightarrow>
   luminance (real r) (real g) (real b) + 1 / 1000 \<le> 195"
  using luminance_step [of r g b 195 195 195] by (simp only: luminance_195)

lemma brightness_near_nat:
  assumes "24 \<le> p" and "r \<le> 255" and "g \<le> 255" and "b \<le> 255"
  shows "luminance (real r) (real g) (real b) - 1 / 2 ^ 13 \<le>
           brightness_fp p (real r) (real g) (real b)"
    and "brightness_fp p (real r) (real g) (real b) \<le>
           luminance (real r) (real g) (real b) + 1 / 2 ^ 13"
proof -
  have "0 \<le> real r" "0 \<le> real g" "0 \<le> real b" "real r \<le> 255" "real g \<le> 255" "real b \<le> 255"
    using assms(2-4) by simp_all
  note n = brightness_near [OF assms(1) this]
  from n(1) show "luminance (real r) (real g) (real b) - 1 / 2 ^ 13 \<le>
           brightness_fp p (real r) (real g) (real b)" .
  from n(2) show "brightness_fp p (real r) (real g) (real b) \<le>
           luminance (real r) (real g) (real b) + 1 / 2 ^ 13" .
qed

lemma luminance_le_255:
  assumes "r \<le> 255" and "g \<le> 255" and "b \<le> 255"
  shows "luminance (real r) (real g) (real b) \<le> 255"
proof -
  have "real r \<le> 255" "real g \<le> 255" "real b \<le> 255"
    using assms by simp_all
  then show ?thesis
    by (simp add: luminance_def)
qed

text \<open>A computed brightness of at least 195 means a luminance of at least 195, and a
  luminance above 195 means a computed brightness above 195: the two tests differ at
  most when the luminance is exactly 195.\<close>

lemma eligible_luminance:
  assumes "24 \<le> p" and "r \<le> 255" and "g \<le> 255" and "b \<le> 255"
    and "195 \<le> brightness_fp p (real r) (real g) (real b)"
  shows "195 \<le> luminance (real r) (real g) (real b)"
proof (rule ccontr)
  assume "\<not> 195 \<le> luminance (real r) (real g) (real b)"
  then have "luminance (real r) (real g) (real b) + 1 / 1000 \<le> 195"
    by (intro luminance_below) simp
  with brightness_near_nat(2) [OF assms(1-4)] assms(5) show False
    by simp
qed

lemma luminance_eligible:
  assumes "24 \<le> p" and "r \<le> 255" and "g \<le> 255" and "b \<le> 255"
    and "195 < luminance (real r) (real g) (real b)"
  shows "195 < brightness_fp p (real r) (real g) (real b)"
  using brightness_near_nat(1) [OF assms(1-4)] luminance_above [OF assms(5)] by simp

lemma brightness_order:
  assumes "24 \<le> p" and "r1 \<le> 255" and "g1 \<le> 255" and "b1 \<le> 255"
    and "r2 \<le> 255" and "g2 \<le> 255" and "b2 \<le> 255"
    and "luminance (real r1) (real g1) (real b1) < luminance (real r2) (real g2) (real b2)"
  shows "brightness_fp p (real r1) (real g1) (real b1) < brightness_fp p (real r2) (real g2) (real b2)"
  using brightness_near_nat(2) [OF assms(1-4)] brightness_near_nat(1) [OF assms(1,5-7)]
    luminance_step [OF assms(8)]
  by simp

text \<open>The error of one rounding on a bounded value.\<close>

lemma fl_near:
  assumes "24 \<le> p" and "0 \<le> x" and "x \<le> m"
  shows "x - m / 2 ^ 24 \<le> fl p x" and "fl p x \<le> x + m / 2 ^ 24"
proof -
  from fl_lohi [OF assms(1,2)] have "x - x / 2 ^ 24 \<le> fl p x" and "fl p x \<le> x + x / 2 ^ 24"
    by (simp_all add: algebra_simps)
  moreover from assms(3) have "x / 2 ^ 24 \<le> m / 2 ^ 24"
    by (simp add: divide_right_mono)
  ultimately show "x - m / 2 ^ 24 \<le> fl p x" and "fl p x \<le> x + m / 2 ^ 24"
    by linarith+
qed

lemma ramp_error:
  assumes "24 \<le> p" and "195 \<le> B" and "B \<le> 256"
    and "L - 1 / 2 ^ 13 \<le> B" and "B \<le> L + 1 / 2 ^ 13"
  shows "\<bar>fdiv p (fsub p B 195) 40 - (L - 195) / 40\<bar> \<le> 1 / 2 ^ 18"
proof -
  let ?d = "fl p (B - 195)"
  let ?q = "fl p (?d / 40)"
  have x: "0 \<le> B - 195" "B - 195 \<le> 61"
    using assms(2,3) by simp_all
  note d = fl_near [OF assms(1) x]
  have d0: "0 \<le> ?d / 40"
    using fl_nonneg [OF x(1), of p] by simp
  have d1: "?d / 40 \<le> 2"
    using d(2) x(2) by simp
  note q = fl_near [OF assms(1) d0 d1]
  have "?q - (L - 195) / 40 \<le> 1 / 2 ^ 18"
    using d q assms(4,5) by (simp add: field_simps)
  moreover have "- (1 / 2 ^ 18) \<le> ?q - (L - 195) / 40"
    using d q assms(4,5) by (simp add: field_simps)
  ultimately show ?thesis
    unfolding fsub_def fdiv_def by (intro abs_leI) linarith+
qed

lemma np_clip_lipschitz: "\<bar>np_clip x 0 1 - np_clip y 0 1\<bar> \<le> \<bar>x - y\<bar>"
  by (simp add: np_clip_def min_def max_def)

lemma clip_below: "x \<le> 195 \<Longrightarrow> np_clip ((x - 195) / 40) 0 1 = 0"
  by (simp add: np_clip_def)

lemma alpha_factor_error:
  assumes "24 \<le> p" and "r \<le> 255" and "g \<le> 255" and "b \<le> 255"
    and "population_std (real r) (real g) (real b) < 15"
  shows "\<bar>alpha_factor_fp p (real r) (real g) (real b) -
          np_clip ((luminance (real r) (real g) (real b) - 195) / 40) 0 1\<bar> \<le> 1 / 2 ^ 18"
proof (cases "195 \<le> brightness_fp p (real r) (real g) (real b)")
  case True
  let ?B = "brightness_fp p (real r) (real g) (real b)"
  let ?L = "luminance (real r) (real g) (real b)"
  note n = brightness_near_nat [OF assms(1-4)]
  from n(2) luminance_le_255 [OF assms(2-4)] have "?B \<le> 256"
    by simp
  note e = ramp_error [OF assms(1) True this n]
  from True assms(5) have "eligible_fp p (real r) (real g) (real b)"
    by (simp add: eligible_fp_iff)
  then have "alpha_factor_fp p (real r) (real g) (real b) =
      np_clip (fdiv p (fsub p ?B 195) 40) 0 1"
    by (rule alpha_factor_fp_eligible)
  with e np_clip_lipschitz [of "fdiv p (fsub p ?B 195) 40" "(?L - 195) / 40"] show ?thesis
    by linarith
next
  case False
  then have "\<not> eligible_fp p (real r) (real g) (real b)"
    by (simp add: eligible_fp_iff)
  then have a: "alpha_factor_fp p (real r) (real g) (real b) = 0"
    by (rule alpha_factor_fp_not_eligible)
  have "luminance (real r) (real g) (real b) \<le> 195"
  proof (rule ccontr)
    assume "\<not> luminance (real r) (real g) (real b) \<le> 195"
    then have "195 < luminance (real r) (real g) (real b)"
      by simp
    from luminance_eligible [OF assms(1-4) this] False show False
      by simp
  qed
  then show ?thesis
    by (simp add: a clip_below)
qed

lemma alpha_factor_fp_mono:
  assumes "1 \<le> p" and "population_std r1 g1 b1 < 15" and "population_std r2 g2 b2 < 15"
    and "brightness_fp p r1 g1 b1 \<le> brightness_fp p r2 g2 b2"
  shows "alpha_factor_fp p r1 g1 b1 \<le> alpha_factor_fp p r2 g2 b2"
proof (cases "195 \<le> brightness_fp p r1 g1 b1")
  case True
  let ?B1 = "brightness_fp p r1 g1 b1" and ?B2 = "brightness_fp p r2 g2 b2"
  from True assms(4) have T2: "195 \<le> ?B2"
    by simp
  from True assms(2) T2 assms(3) have e: "eligible_fp p r1 g1 b1" "eligible_fp p r2 g2 b2"
    by (simp_all add: eligible_fp_iff)
  have "0 \<le> ?B1 - 195" and "?B1 - 195 \<le> ?B2 - 195"
    using True assms(4) by simp_all
  then have d: "fl p (?B1 - 195) \<le> fl p (?B2 - 195)" and d0: "0 \<le> fl p (?B1 - 195)"
    using assms(1) by (simp_all add: fl_mono fl_nonneg)
  then have "fl p (fl p (?B1 - 195) / 40) \<le> fl p (fl p (?B2 - 195) / 40)"
    using assms(1) by (intro fl_mono) simp_all
  then show ?thesis
    unfolding alpha_factor_fp_eligible [OF e(1)] alpha_factor_fp_eligible [OF e(2)]
      fsub_def fdiv_def
    by (rule np_clip_mono)
next
  case False
  then have "alpha_factor_fp p r1 g1 b1 = 0"
    by (simp add: alpha_factor_fp_not_eligible eligible_fp_iff)
  with alpha_factor_fp_range [of p r2 g2 b2] show ?thesis
    by simp
qed

lemma stored_alpha_error:
  assumes "24 \<le> p" and "0 \<le> a" and "a \<le> 1"
  shows "\<bar>fl 24 (fmul p 255 (fsub p 1 a)) - 255 * (1 - a)\<bar> \<le> 1 / 2 ^ 14"
proof -
  let ?s = "fl p (1 - a)"
  let ?m = "fl p (255 * ?s)"
  let ?t = "fl 24 ?m"
  have p24: "24 \<le> (24::nat)"
    by simp
  have x: "0 \<le> 1 - a" "1 - a \<le> 1"
    using assms(2,3) by simp_all
  note s = fl_near [OF assms(1) x]
  have s0: "0 \<le> 255 * ?s"
    using fl_nonneg [OF x(1), of p] by simp
  have s1: "255 * ?s \<le> 256"
    using s(2) x(2) by simp
  note m = fl_near [OF assms(1) s0 s1]
  have m0: "0 \<le> ?m"
    using s0 by (rule fl_nonneg)
  have m1: "?m \<le> 257"
    using m(2) s1 by simp
  note t = fl_near [OF p24 m0 m1]
  have "?t - 255 * (1 - a) \<le> 1 / 2 ^ 14"
    using s m t by (simp add: field_simps)
  moreover have "- (1 / 2 ^ 14) \<le> ?t - 255 * (1 - a)"
    using s m t by (simp add: field_simps)
  ultimately show ?thesis
    unfolding fsub_def fmul_def by (intro abs_leI) linarith+
qed

section \<open>The classification rule\<close>

lemma std_pair:
  "population_std 226 202 218 = sqrt (896 / 9)" "population_std 196 220 204 = sqrt (896 / 9)"
  by (simp_all add: population_std_def Let_def power2_eq_square)

lemma std_pair_less: "population_std 226 202 218 < 15" "population_std 196 220 204 < 15"
  by (simp_all add: std_pair sqrt_less_15)

lemma std_grey_0: "population_std v v v = 0"
  by (simp add: population_std_def)

lemma eligible_grey219: "eligible_fp 24 219 219 219"
  by (simp add: eligible_fp_iff ev_15 std_grey_0)

lemma factor_grey219: "alpha_factor_fp 24 219 219 219 = 5033165 / 8388608"
  by (simp add: alpha_factor_fp_eligible [OF eligible_grey219] ev_15 ev_16 ev_17 np_clip_def)

lemma not_eligible_grey195: "\<not> eligible_fp 53 195 195 195"
  by (simp add: eligible_fp_iff ev_54)

text \<open>
  C3, as stated over the exact luminance, fails in both arithmetics. In float32 the grey
  pixel (219, 219, 219), of luminance 219 and deviation 0, is eligible, and its
  confidence is 5033165 / 8388608 where the ramp gives 3 / 5. In float64 the grey pixel
  (195, 195, 195), of luminance exactly 195 and deviation 0, has a computed brightness
  below 195 and is not eligible.
\<close>

theorem classifier_rule_counterexample:
  "luminance 219 219 219 = 219 \<and> population_std 219 219 219 = 0 \<and>
   np_clip ((luminance 219 219 219 - (white_threshold - gradient_range)) / gradient_range) 0 1 =
     3 / 5 \<and>
   eligible_fp 24 219 219 219 \<and>
   alpha_factor_fp 24 219 219 219 = 5033165 / 8388608 \<and>
   alpha_factor_fp 24 219 219 219 \<noteq> 3 / 5 \<and>
   luminance 195 195 195 = 195 \<and> population_std 195 195 195 = 0 \<and>
   white_threshold - gradient_range \<le> luminance 195 195 195 \<and>
   brightness_fp 53 195 195 195 < 195 \<and>
   \<not> eligible_fp 53 195 195 195"
proof -
  have l: "luminance 219 219 219 = 219" "luminance 195 195 195 = 195"
    by (simp_all add: luminance_def)
  have c: "np_clip ((luminance 219 219 219 - (white_threshold - gradient_range)) / gradient_range)
      0 1 = 3 / 5"
    by (simp add: l white_threshold_def gradient_range_def np_clip_def)
  have n: "alpha_factor_fp 24 219 219 219 \<noteq> 3 / 5"
    by (simp add: factor_grey219)
  have t: "white_threshold - gradient_range \<le> luminance 195 195 195"
    by (simp add: l white_threshold_def gradient_range_def)
  have b: "brightness_fp 53 195 195 195 < 195"
    by (simp add: ev_54)
  from l(1) std_grey_0 [of 219] c eligible_grey219 factor_grey219 n l(2) std_grey_0 [of 195] t b
    not_eligible_grey195
  show ?thesis
    by (intro conjI)
qed

text \<open>
  C3, amended. For a pixel with integer channel values R, G, B in [0, 255], in float32 and
  in float64 arithmetic (\<open>p\<close> at least 24): the pixel is eligible exactly when the
  brightness \<open>B\<close> computed in floating point is at least 195 = 235 - 40 and the population
  standard deviation is below 15; \<open>B\<close> lies within 1 / 2^13 of the luminance
  \<open>L = 0.299 R + 0.587 G + 0.114 B\<close>; an eligible pixel has \<open>L \<ge> 195\<close> and every pixel
  with \<open>L > 195\<close> and deviation below 15 is eligible, so that the two tests can differ
  only at \<open>L = 195\<close>; the confidence of an eligible pixel is the ramp computed in floating
  point from \<open>B\<close>, clipped, within 1 / 2^18 of \<open>clip ((L - 195) / 40, 0, 1)\<close>; the
  confidence of every other pixel is 0, in particular when the deviation is 15 or more.
\<close>

theorem classifier_rule:
  assumes "24 \<le> p" and "r \<le> 255" and "g \<le> 255" and "b \<le> 255"
  shows "white_threshold - gradient_range = 195 \<and> gradient_range = 40 \<and>
         (eligible_fp p (real r) (real g) (real b) \<longleftrightarrow>
            white_threshold - gradient_range \<le> brightness_fp p (real r) (real g) (real b) \<and>
            population_std (real r) (real g) (real b) < 15) \<and>
         \<bar>brightness_fp p (real r) (real g) (real b) - luminance (real r) (real g) (real b)\<bar>
            \<le> 1 / 2 ^ 13 \<and>
         (eligible_fp p (real r) (real g) (real b) \<longrightarrow>
            white_threshold - gradient_range \<le> luminance (real r) (real g) (real b)) \<and>
         (white_threshold - gradient_range < luminance (real r) (real g) (real b) \<and>
          population_std (real r) (real g) (real b) < 15 \<longrightarrow>
            eligible_fp p (real r) (real g) (real b)) \<and>
         (eligible_fp p (real r) (real g) (real b) \<longrightarrow>
            alpha_factor_fp p (real r) (real g) (real b) =
              np_clip (fdiv p (fsub p (brightness_fp p (real r) (real g) (real b))
                (white_threshold - gradient_range)) gradient_range) 0 1 \<and>
            \<bar>alpha_factor_fp p (real r) (real g) (real b) -
             np_clip ((luminance (real r) (real g) (real b) - (white_threshold - gradient_range)) /
               gradient_range) 0 1\<bar> \<le> 1 / 2 ^ 18) \<and>
         (\<not> eligible_fp p (real r) (real g) (real b) \<longrightarrow>
            alpha_factor_fp p (real r) (real g) (real b) = 0) \<and>
         (15 \<le> population_std (real r) (real g) (real b) \<longrightarrow>
            alpha_factor_fp p (real r) (real g) (real b) = 0)"
proof -
  let ?B = "brightness_fp p (real r) (real g) (real b)"
  let ?L = "luminance (real r) (real g) (real b)"
  let ?e = "eligible_fp p (real r) (real g) (real b)"
  let ?a = "alpha_factor_fp p (real r) (real g) (real b)"
  have t: "white_threshold - gradient_range = 195" and w: "gradient_range = 40"
    by (simp_all add: white_threshold_def gradient_range_def)
  have c1: "?e \<longleftrightarrow> 195 \<le> ?B \<and> population_std (real r) (real g) (real b) < 15"
    by (rule eligible_fp_iff)
  have c2: "\<bar>?B - ?L\<bar> \<le> 1 / 2 ^ 13"
    using brightness_near_nat [OF assms] by (intro abs_leI) linarith+
  have c3: "?e \<longrightarrow> 195 \<le> ?L"
    using eligible_luminance [OF assms] by (simp add: eligible_fp_iff)
  have c4: "195 < ?L \<and> population_std (real r) (real g) (real b) < 15 \<longrightarrow> ?e"
    using luminance_eligible [OF assms] by (auto simp: eligible_fp_iff)
  have c5: "?e \<longrightarrow> ?a = np_clip (fdiv p (fsub p ?B 195) 40) 0 1 \<and>
      \<bar>?a - np_clip ((?L - 195) / 40) 0 1\<bar> \<le> 1 / 2 ^ 18"
  proof (intro impI conjI)
    assume e: ?e
    then show "?a = np_clip (fdiv p (fsub p ?B 195) 40) 0 1"
      by (rule alpha_factor_fp_eligible)
    from e have "population_std (real r) (real g) (real b) < 15"
      by (simp add: eligible_fp_iff)
    then show "\<bar>?a - np_clip ((?L - 195) / 40) 0 1\<bar> \<le> 1 / 2 ^ 18"
      by (rule alpha_factor_error [OF assms])
  qed
  have c6: "\<not> ?e \<longrightarrow> ?a = 0"
    by (simp add: alpha_factor_fp_not_eligible)
  have c7: "15 \<le> population_std (real r) (real g) (real b) \<longrightarrow> ?a = 0"
    by (simp add: alpha_factor_fp_not_eligible eligible_fp_iff)
  have tw: "white_threshold - 40 = 195"
    by (simp add: white_threshold_def)
  show ?thesis
    unfolding w tw using c1 c2 c3 c4 c5 c6 c7 by (intro conjI refl)
qed

theorem classifier_rule_witness:
  "eligible_fp 24 (real 219) (real 219) (real 219) \<and>
   \<bar>alpha_factor_fp 24 (real 219) (real 219) (real 219) - 3 / 5\<bar> \<le> 1 / 2 ^ 18 \<and>
   \<not> eligible_fp 24 (real 200) (real 30) (real 30) \<and>
   alpha_factor_fp 24 (real 200) (real 30) (real 30) = 0"
proof -
  have h: "(24::nat) \<le> 24" "(219::nat) \<le> 255" "(200::nat) \<le> 255" "(30::nat) \<le> 255"
    by simp_all
  have l: "luminance 219 219 219 = 219" "luminance 200 30 30 = 80.83"
    by (simp_all add: luminance_def)
  have s: "population_std (real 219) (real 219) (real 219) < 15"
    by (simp add: std_grey_0)
  note a = classifier_rule [OF h(1) h(2) h(2) h(2)]
  note b = classifier_rule [OF h(1) h(3) h(4) h(4)]
  note a4 = a [THEN conjunct2, THEN conjunct2, THEN conjunct2, THEN conjunct2, THEN conjunct2,
    THEN conjunct1]
  note a5 = a [THEN conjunct2, THEN conjunct2, THEN conjunct2, THEN conjunct2, THEN conjunct2,
    THEN conjunct2, THEN conjunct1]
  note b3 = b [THEN conjunct2, THEN conjunct2, THEN conjunct2, THEN conjunct2, THEN conjunct1]
  note b6 = b [THEN conjunct2, THEN conjunct2, THEN conjunct2, THEN conjunct2, THEN conjunct2,
    THEN conjunct2, THEN conjunct2, THEN conjunct1]
  have "white_threshold - gradient_range < luminance (real 219) (real 219) (real 219)"
    by (simp add: white_threshold_def gradient_range_def l)
  then have e: "eligible_fp 24 (real 219) (real 219) (real 219)"
    using s by (intro mp [OF a4] conjI)
  note a5' = mp [OF a5 e, THEN conjunct2]
  have "np_clip ((luminance (real 219) (real 219) (real 219) -
      (white_threshold - gradient_range)) / gradient_range) 0 1 = 3 / 5"
    by (simp add: white_threshold_def gradient_range_def l np_clip_def)
  with a5' have f: "\<bar>alpha_factor_fp 24 (real 219) (real 219) (real 219) - 3 / 5\<bar> \<le> 1 / 2 ^ 18"
    by (simp only:)
  have "\<not> white_threshold - gradient_range \<le> luminance (real 200) (real 30) (real 30)"
    by (simp add: white_threshold_def gradient_range_def l)
  with b3 have n: "\<not> eligible_fp 24 (real 200) (real 30) (real 30)"
    by blast
  note z = mp [OF b6 n]
  from e f n z show ?thesis
    by (intro conjI)
qed

section \<open>Monotonicity of the confidence\<close>

lemma factor_pink_f32: "alpha_factor_fp 24 226 202 218 = 6710893 / 16777216"
proof -
  have "eligible_fp 24 226 202 218"
    by (simp add: eligible_fp_iff ev_29 std_pair_less)
  then show ?thesis
    by (simp add: alpha_factor_fp_eligible ev_29 ev_30 ev_31 np_clip_def)
qed

lemma factor_green_f32: "alpha_factor_fp 24 196 220 204 = 13421773 / 33554432"
proof -
  have "eligible_fp 24 196 220 204"
    by (simp add: eligible_fp_iff ev_40 std_pair_less)
  then show ?thesis
    by (simp add: alpha_factor_fp_eligible ev_40 ev_41 ev_42 np_clip_def)
qed

lemma factor_pink_f64: "alpha_factor_fp 53 226 202 218 = 3602879701896397 / 9007199254740992"
proof -
  have "eligible_fp 53 226 202 218"
    by (simp add: eligible_fp_iff ev_63 std_pair_less)
  then show ?thesis
    by (simp add: alpha_factor_fp_eligible ev_63 ev_64 ev_65 np_clip_def)
qed

lemma factor_green_f64: "alpha_factor_fp 53 196 220 204 = 7205759403792781 / 18014398509481984"
proof -
  have "eligible_fp 53 196 220 204"
    by (simp add: eligible_fp_iff ev_74 std_pair_less)
  then show ?thesis
    by (simp add: alpha_factor_fp_eligible ev_74 ev_75 ev_76 np_clip_def)
qed

text \<open>
  C9, as stated, fails on the pixels (226, 202, 218) and (196, 220, 204): they have the
  same deviation, below 15, and the same luminance 211, and the confidence of the first
  is larger than that of the second, in float32 and in float64.
\<close>

theorem alpha_factor_mono_counterexample:
  "population_std 226 202 218 = population_std 196 220 204 \<and>
   population_std 226 202 218 < 15 \<and>
   luminance 226 202 218 = 211 \<and> luminance 196 220 204 = 211 \<and>
   luminance 226 202 218 \<le> luminance 196 220 204 \<and>
   alpha_factor_fp 24 226 202 218 = 6710893 / 16777216 \<and>
   alpha_factor_fp 24 196 220 204 = 13421773 / 33554432 \<and>
   alpha_factor_fp 24 196 220 204 < alpha_factor_fp 24 226 202 218 \<and>
   alpha_factor_fp 53 196 220 204 < alpha_factor_fp 53 226 202 218"
proof -
  have s: "population_std 226 202 218 = population_std 196 220 204"
    by (simp only: std_pair)
  have l: "luminance 226 202 218 = 211" "luminance 196 220 204 = 211"
    by (simp_all add: luminance_def)
  have o: "luminance 226 202 218 \<le> luminance 196 220 204"
    by (simp only: l)
  have c: "alpha_factor_fp 24 196 220 204 < alpha_factor_fp 24 226 202 218"
    by (simp add: factor_pink_f32 factor_green_f32)
  have d: "alpha_factor_fp 53 196 220 204 < alpha_factor_fp 53 226 202 218"
    by (simp add: factor_pink_f64 factor_green_f64)
  from s std_pair_less(1) l o factor_pink_f32 factor_green_f32 c d show ?thesis
    by (intro conjI)
qed

text \<open>
  C9, amended. For two pixels with integer channel values in [0, 255] whose deviations
  are both below 15, in float32 and in float64 arithmetic: the confidence is
  non-decreasing in the brightness computed in floating point; a strictly larger
  luminance gives a confidence at least as large; and with equal luminances the two
  confidences differ by at most 1 / 2^17.
\<close>

theorem alpha_factor_mono:
  assumes "24 \<le> p"
    and "r1 \<le> 255" and "g1 \<le> 255" and "b1 \<le> 255"
    and "r2 \<le> 255" and "g2 \<le> 255" and "b2 \<le> 255"
    and "population_std (real r1) (real g1) (real b1) < 15"
    and "population_std (real r2) (real g2) (real b2) < 15"
  shows "(brightness_fp p (real r1) (real g1) (real b1) \<le>
            brightness_fp p (real r2) (real g2) (real b2) \<longrightarrow>
          alpha_factor_fp p (real r1) (real g1) (real b1) \<le>
            alpha_factor_fp p (real r2) (real g2) (real b2)) \<and>
         (luminance (real r1) (real g1) (real b1) < luminance (real r2) (real g2) (real b2) \<longrightarrow>
          alpha_factor_fp p (real r1) (real g1) (real b1) \<le>
            alpha_factor_fp p (real r2) (real g2) (real b2)) \<and>
         (luminance (real r1) (real g1) (real b1) = luminance (real r2) (real g2) (real b2) \<longrightarrow>
          \<bar>alpha_factor_fp p (real r1) (real g1) (real b1) -
           alpha_factor_fp p (real r2) (real g2) (real b2)\<bar> \<le> 1 / 2 ^ 17)"
proof -
  let ?a1 = "alpha_factor_fp p (real r1) (real g1) (real b1)"
  let ?a2 = "alpha_factor_fp p (real r2) (real g2) (real b2)"
  let ?L1 = "luminance (real r1) (real g1) (real b1)"
  let ?L2 = "luminance (real r2) (real g2) (real b2)"
  have p1: "1 \<le> p"
    using assms(1) by simp
  have m: "?a1 \<le> ?a2"
    if "brightness_fp p (real r1) (real g1) (real b1) \<le> brightness_fp p (real r2) (real g2) (real b2)"
    using p1 assms(8,9) that by (rule alpha_factor_fp_mono)
  have c1: "brightness_fp p (real r1) (real g1) (real b1) \<le>
      brightness_fp p (real r2) (real g2) (real b2) \<longrightarrow> ?a1 \<le> ?a2"
    using m by blast
  have c2: "?L1 < ?L2 \<longrightarrow> ?a1 \<le> ?a2"
  proof
    assume "?L1 < ?L2"
    from brightness_order [OF assms(1-7) this] show "?a1 \<le> ?a2"
      by (intro m) simp
  qed
  have c3: "?L1 = ?L2 \<longrightarrow> \<bar>?a1 - ?a2\<bar> \<le> 1 / 2 ^ 17"
  proof
    assume e: "?L1 = ?L2"
    note e1 = alpha_factor_error [OF assms(1-4) assms(8)]
    note e2 = alpha_factor_error [OF assms(1) assms(5-7) assms(9)]
    have "(1::real) / 2 ^ 18 + 1 / 2 ^ 18 = 1 / 2 ^ 17"
      by simp
    with e1 e2 show "\<bar>?a1 - ?a2\<bar> \<le> 1 / 2 ^ 17"
      unfolding e by linarith
  qed
  from c1 c2 c3 show ?thesis
    by (intro conjI)
qed

theorem alpha_factor_mono_witness:
  "luminance (real 205) (real 205) (real 205) < luminance (real 219) (real 219) (real 219) \<and>
   alpha_factor_fp 24 (real 205) (real 205) (real 205) \<le>
     alpha_factor_fp 24 (real 219) (real 219) (real 219) \<and>
   luminance (real 226) (real 202) (real 218) = luminance (real 196) (real 220) (real 204) \<and>
   \<bar>alpha_factor_fp 24 (real 226) (real 202) (real 218) -
    alpha_factor_fp 24 (real 196) (real 220) (real 204)\<bar> \<le> 1 / 2 ^ 17"
proof -
  have h: "(24::nat) \<le> 24" "(205::nat) \<le> 255" "(219::nat) \<le> 255"
    "(226::nat) \<le> 255" "(202::nat) \<le> 255" "(218::nat) \<le> 255"
    "(196::nat) \<le> 255" "(220::nat) \<le> 255" "(204::nat) \<le> 255"
    by simp_all
  have s: "population_std (real 205) (real 205) (real 205) < 15"
    "population_std (real 219) (real 219) (real 219) < 15"
    by (simp_all add: std_grey_0)
  have s': "population_std (real 226) (real 202) (real 218) < 15"
    "population_std (real 196) (real 220) (real 204) < 15"
    using std_pair_less by simp_all
  have l: "luminance (real 205) (real 205) (real 205) < luminance (real 219) (real 219) (real 219)"
    by (simp add: luminance_def)
  have e: "luminance (real 226) (real 202) (real 218) = luminance (real 196) (real 220) (real 204)"
    by (simp add: luminance_def)
  note a = alpha_factor_mono [OF h(1) h(2) h(2) h(2) h(3) h(3) h(3) s]
  note b = alpha_factor_mono [OF h(1) h(4) h(5) h(6) h(7) h(8) h(9) s']
  note a2 = mp [OF a [THEN conjunct2, THEN conjunct1] l]
  note b3 = mp [OF b [THEN conjunct2, THEN conjunct2] e]
  from l a2 e b3 show ?thesis
    by (intro conjI)
qed

section \<open>The output of the compositor\<close>

lemma pixel_grey219:
  "composite_pixel_fp 24 (219, 219, 219, a) = (219, 219, 219, 13369343 / 131072)"
proof -
  have "classify_fp 24 219 219 219 = Some (5033165 / 8388608)"
    by (simp add: classify_fp_unfold ev_15 ev_16 ev_17 std_grey np_clip_def)
  then show ?thesis
    by (simp add: composite_pixel_fp_def ev_18 ev_19 ev_20)
qed

lemma grey_dot_rect: "rectangular grey_dot"
  by (simp add: grey_dot_def rectangular_def img_width_def)

lemma grey_dot_result: "result (composite_fp 24 grey_dot) = [[(219, 219, 219, 13369343 / 131072)]]"
  by (simp add: composite_result_fp grey_dot_rect np_array_map)
    (simp add: grey_dot_def float_pixel_def pixel_grey219)

text \<open>
  C5, as stated, fails in float32 on the single grey pixel (219, 219, 219): the alpha
  stored in the output array is 13369343 / 131072 = 101.99999237, which is neither
  255 * (1 - alpha\_factor) for the confidence 5033165 / 8388608 that the loop computed
  nor the 102 that the exact confidence 3 / 5 gives, and the 8-bit alpha of the
  composited buffer is 101.
\<close>

theorem compositor_output_counterexample:
  "alpha (result (composite_fp 24 grey_dot) ! 0 ! 0) = 13369343 / 131072 \<and>
   alpha_factor_fp 24 219 219 219 = 5033165 / 8388608 \<and>
   255 * (1 - alpha_factor_fp 24 219 219 219) = 855637965 / 8388608 \<and>
   alpha (result (composite_fp 24 grey_dot) ! 0 ! 0) \<noteq> 255 * (1 - alpha_factor_fp 24 219 219 219) \<and>
   alpha_factor 219 219 219 = 3 / 5 \<and>
   255 * (1 - alpha_factor 219 219 219) = 102 \<and>
   alpha (composited_fp 24 grey_dot ! 0 ! 0) = 101"
proof -
  have a: "alpha (result (composite_fp 24 grey_dot) ! 0 ! 0) = 13369343 / 131072"
    by (simp add: grey_dot_result alpha_def)
  have b: "255 * (1 - alpha_factor_fp 24 219 219 219) = 855637965 / 8388608"
    by (simp add: factor_grey219)
  have c: "alpha (result (composite_fp 24 grey_dot) ! 0 ! 0) \<noteq>
      255 * (1 - alpha_factor_fp 24 219 219 219)"
    unfolding a b by simp
  have d: "alpha_factor 219 219 219 = 3 / 5"
    by (simp add: alpha_factor_def classify_def np_std_3 std_grey_0 white_threshold_def
        gradient_range_def np_clip_def Let_def)
  have e: "255 * (1 - alpha_factor 219 219 219) = 102"
    by (simp add: d)
  have f: "alpha (composited_fp 24 grey_dot ! 0 ! 0) = 101"
    by (simp add: composited_fp_def grey_dot_result to_uint8_def alpha_def astype_uint8_def
        np_clip_def py_int_def)
  from a factor_grey219 b c d e f show ?thesis
    by (intro conjI)
qed

text \<open>
  C5, amended. For a rectangular input buffer and a pixel (r, g, b, a) of it, in float32
  and in float64 arithmetic: the output array holds the input's R, G and B at that pixel,
  and so does the composited 8-bit buffer; the alpha stored in the output array is 255
  for a pixel that is not eligible and, for an eligible pixel, the float32 rounding of
  255 * (1 - alpha\_factor) computed in floating point, which lies within 1 / 2^14 of
  255 * (1 - alpha\_factor) for the confidence the loop computed; the 8-bit alpha is the
  stored alpha clipped to [0, 255] and truncated; the output has the size of the input
  and the array loaded from the input is unchanged.
\<close>

theorem compositor_output:
  assumes "rectangular img" and "y < img_height img" and "x < img_width img"
    and "24 \<le> p" and "img ! y ! x = (r, g, b, a)"
  shows "rgb (result (composite_fp p img) ! y ! x) = (real (unat r), real (unat g), real (unat b)) \<and>
         rgb (composited_fp p img ! y ! x) = (r, g, b) \<and>
         alpha (result (composite_fp p img) ! y ! x) =
           (if eligible_fp p (real (unat r)) (real (unat g)) (real (unat b))
            then fl 24 (fmul p 255 (fsub p 1
                   (alpha_factor_fp p (real (unat r)) (real (unat g)) (real (unat b)))))
            else 255) \<and>
         \<bar>alpha (result (composite_fp p img) ! y ! x) -
          255 * (1 - alpha_factor_fp p (real (unat r)) (real (unat g)) (real (unat b)))\<bar>
           \<le> 1 / 2 ^ 14 \<and>
         alpha (composited_fp p img ! y ! x) =
           astype_uint8 (np_clip (alpha (result (composite_fp p img) ! y ! x)) 0 255) \<and>
         img_size (result (composite_fp p img)) = img_size img \<and>
         data (composite_fp p img) = np_array img"
proof -
  let ?R = "real (unat r)" and ?G = "real (unat g)" and ?B = "real (unat b)"
  let ?af = "alpha_factor_fp p ?R ?G ?B"
  let ?w = "if eligible_fp p ?R ?G ?B then fl 24 (fmul p 255 (fsub p 1 ?af)) else 255"
  from assms(1-3) have len: "y < length img" "x < length (img ! y)"
    by (simp_all add: img_height_def rectangular_nth)
  have fp: "float_pixel (img ! y ! x) = (?R, ?G, ?B, real (unat a))"
    by (simp add: assms(5) float_pixel_def)
  have cp: "composite_pixel_fp p (?R, ?G, ?B, real (unat a)) = (?R, ?G, ?B, ?w)"
    by (cases "classify_fp p ?R ?G ?B")
      (simp_all add: composite_pixel_fp_def eligible_fp_def alpha_factor_fp_def)
  from len have "result (composite_fp p img) ! y ! x =
      composite_pixel_fp p (float_pixel (img ! y ! x))"
    by (simp add: composite_result_fp assms(1) np_array_map)
  then have res: "result (composite_fp p img) ! y ! x = (?R, ?G, ?B, ?w)"
    by (simp only: fp cp)
  from len have "composited_fp p img ! y ! x = composite_pixel8_fp p (img ! y ! x)"
    by (simp add: composited_fp_eq assms(1))
  then have "composited_fp p img ! y ! x = uint8_pixel (?R, ?G, ?B, ?w)"
    by (simp only: composite_pixel8_fp_def fp cp)
  then have com: "composited_fp p img ! y ! x = (r, g, b, astype_uint8 (np_clip ?w 0 255))"
    by (simp add: uint8_pixel_def astype_uint8_sample)
  have err: "\<bar>?w - 255 * (1 - ?af)\<bar> \<le> 1 / 2 ^ 14"
  proof (cases "eligible_fp p ?R ?G ?B")
    case True
    from alpha_factor_fp_range [of p ?R ?G ?B]
    have "\<bar>fl 24 (fmul p 255 (fsub p 1 ?af)) - 255 * (1 - ?af)\<bar> \<le> 1 / 2 ^ 14"
      by (intro stored_alpha_error assms(4)) simp_all
    with True show ?thesis
      by (simp only: if_True)
  next
    case False
    then show ?thesis
      by (simp add: alpha_factor_fp_not_eligible)
  qed
  have sz: "img_size (result (composite_fp p img)) = img_size img"
    by (simp add: composite_result_fp assms(1) np_array_map img_size_map)
  have c1: "rgb (result (composite_fp p img) ! y ! x) = (?R, ?G, ?B)"
    by (simp only: res rgb_def prod.case)
  have c2: "rgb (composited_fp p img ! y ! x) = (r, g, b)"
    by (simp only: com rgb_def prod.case)
  have c3: "alpha (result (composite_fp p img) ! y ! x) = ?w"
    by (simp only: res alpha_def prod.case)
  have c4: "\<bar>alpha (result (composite_fp p img) ! y ! x) - 255 * (1 - ?af)\<bar> \<le> 1 / 2 ^ 14"
    by (simp only: c3 err)
  have c5: "alpha (composited_fp p img ! y ! x) =
      astype_uint8 (np_clip (alpha (result (composite_fp p img) ! y ! x)) 0 255)"
    unfolding c3 by (simp only: com alpha_def prod.case)
  from c1 c2 c3 c4 c5 sz composite_data_fp [of p img] show ?thesis
    by (intro conjI)
qed

theorem compositor_output_witness:
  "rectangular white_and_red \<and>
   rgb (result (composite_fp 24 white_and_red) ! 0 ! 0) = (255, 255, 255) \<and>
   rgb (composited_fp 24 white_and_red ! 0 ! 0) = (255, 255, 255) \<and>
   alpha (result (composite_fp 24 white_and_red) ! 0 ! 0) = 0 \<and>
   alpha (composited_fp 24 white_and_red ! 0 ! 0) = 0 \<and>
   img_size (result (composite_fp 24 white_and_red)) = (2, 1) \<and>
   data (composite_fp 24 white_and_red) = [[(255, 255, 255, 7), (200, 30, 30, 255)]]"
proof -
  have r: "rectangular white_and_red"
    by (simp add: white_and_red_def rectangular_def img_width_def)
  have s: "0 < img_height white_and_red" "0 < img_width white_and_red"
    and q: "white_and_red ! 0 ! 0 = (255, 255, 255, 7)"
    and z: "img_size white_and_red = (2, 1)"
    by (simp_all add: white_and_red_def img_height_def img_width_def img_size_def)
  have p: "(24::nat) \<le> 24"
    by simp
  have e: "eligible_fp 24 255 255 255" and f: "alpha_factor_fp 24 255 255 255 = 1"
    by (simp_all add: eligible_fp_def alpha_factor_fp_def white_classify)
  have d: "np_array white_and_red = [[(255, 255, 255, 7), (200, 30, 30, 255)]]"
    by (simp add: white_and_red_def np_array_def)
  note t = compositor_output [OF r s p q]
  from t have c1: "rgb (result (composite_fp 24 white_and_red) ! 0 ! 0) = (255, 255, 255)"
    by simp
  from t have c2: "rgb (composited_fp 24 white_and_red ! 0 ! 0) = (255, 255, 255)"
    by simp
  from t have c3: "alpha (result (composite_fp 24 white_and_red) ! 0 ! 0) = 0"
    by (simp add: e f fsub_def fmul_def fl_0)
  from t have "alpha (composited_fp 24 white_and_red ! 0 ! 0) =
      astype_uint8 (np_clip (alpha (result (composite_fp 24 white_and_red) ! 0 ! 0)) 0 255)"
    by simp
  then have c4: "alpha (composited_fp 24 white_and_red ! 0 ! 0) = 0"
    by (simp add: c3 astype_uint8_def np_clip_def py_int_def)
  from t have c5: "img_size (result (composite_fp 24 white_and_red)) = (2, 1)"
    by (simp add: z)
  from t have c6: "data (composite_fp 24 white_and_red) = [[(255, 255, 255, 7), (200, 30, 30, 255)]]"
    by (simp add: d)
  from r c1 c2 c3 c4 c5 c6 show ?thesis
    by (intro conjI)
qed

end
